theory Spec2Isabelle
  imports Complex_Main "HOL-Library.List_Lexorder" "HOL-Library.Char_ord" "HOL-Library.Sublist"
begin

section \<open>IoT-LAB cli-tools: the experiment description and the state poller\<close>

text \<open>
  A shallow embedding of \<^verbatim>\<open>src/iotlabcli/experiment.py\<close>: the alias groups
  (\<^verbatim>\<open>AliasNodes\<close>), the experiment builder (\<^verbatim>\<open>_Experiment\<close>) and the polling
  loop (\<^verbatim>\<open>wait_state\<close>). Python identifiers that start with an underscore lose
  it (\<^verbatim>\<open>_set_type\<close> is \<open>set_type\<close>), since an Isabelle name starts with a letter.
  Every \<^verbatim>\<open>raise\<close> of the source is a value \<open>Inl err\<close> of a sum type; a function
  that raises returns no updated object, as the caller of the source abandons the
  experiment it was building.
\<close>

subsection \<open>Values and errors\<close>

text \<open>
  JSON values: what \<^verbatim>\<open>json.loads\<close> returns and what the encoder writes. A JSON
  object is the list of its items. The fields of an experiment that the code only
  stores and writes back (name, duration, reservation) hold such values.
\<close>

datatype json =
    JNull
  | JBool bool
  | JInt int
  | JStr string
  | JArr "json list"
  | JObj "(string \<times> json) list"

text \<open>
  The exceptions of the module. The three \<^verbatim>\<open>ValueError\<close>s of the source are told
  apart by their message: \<open>ModeConflict\<close> is "Invalid experiment, should be only
  physical or only alias", \<open>NodesSpecifiedMultipleTimes\<close> is "Nodes specified multiple
  times [...]" with the list it prints, \<open>ArchiNotIn\<close> is "'archi' not in [...]".
  The two \<^verbatim>\<open>RuntimeError\<close>s of the poller are \<open>TimeoutReached\<close> and
  \<open>AlreadyInState\<close> (with the experiment string and the state it prints).
  \<open>KeyError\<close>, \<open>TypeError\<close> and \<open>AttributeError\<close> are the exceptions that Python
  itself raises (a missing dictionary key, an object that cannot be iterated or hashed, a
  missing attribute). \<open>ConflictError\<close> and \<open>MalformedDescription\<close> are raised by the
  association maps, \<open>StateFctRaised\<close> stands for an exception of the poller's callback.
\<close>

datatype error =
    ModeConflict
  | NodesSpecifiedMultipleTimes "string list"
  | ArchiNotIn string "string list"
  | ConflictError string "string list"
  | KeyError json
  | TypeError string
  | AttributeError string
  | MalformedDescription string
  | TimeoutReached
  | AlreadyInState string string
  | StateFctRaised string

subsection \<open>Decimal strings: Python's \<^verbatim>\<open>str\<close> on integers\<close>

fun str_nat :: "nat \<Rightarrow> string" where
  "str_nat n =
     (if n < 10 then [''0123456789'' ! n]
      else str_nat (n div 10) @ [''0123456789'' ! (n mod 10)])"

declare str_nat.simps [simp del]

definition str_int :: "int \<Rightarrow> string" where
  "str_int i = (if i < 0 then CHR ''-'' # str_nat (nat (- i)) else str_nat (nat i))"

text \<open>
  The explicit alias id a caller may pass to \<^verbatim>\<open>AliasNodes(..., _alias=...)\<close>: an integer
  or a string. \<^verbatim>\<open>str\<close> leaves a string as it is.
\<close>

datatype alias_arg = AliasInt int | AliasStr string

fun py_str :: "alias_arg \<Rightarrow> string" where
  "py_str (AliasInt i) = str_int i"
| "py_str (AliasStr s) = s"

subsection \<open>Architecture whitelist: \<^verbatim>\<open>AliasNodes.ARCHIS\<close>, \<^verbatim>\<open>ARCHI_RE\<close>, \<^verbatim>\<open>_valid_archi\<close>\<close>

text \<open>
  The fragment of Python's \<^verbatim>\<open>re\<close> that the patterns of \<^verbatim>\<open>ARCHIS\<close> use: literal
  characters and \<^verbatim>\<open>.*\<close>. \<open>re_match p s\<close> is \<^verbatim>\<open>bool(re.compile(p).match(s))\<close>:
  \<^verbatim>\<open>match\<close> anchors the pattern at the start of the string only, so an empty
  remaining pattern matches whatever is left of the string. The dot matches any
  character but a newline.
\<close>

datatype atom = Chr char | AnyStar

fun re_compile :: "string \<Rightarrow> atom list" where
  "re_compile (CHR ''.'' # CHR ''*'' # r) = AnyStar # re_compile r"
| "re_compile (c # r) = Chr c # re_compile r"
| "re_compile [] = []"

fun re_match :: "atom list \<Rightarrow> string \<Rightarrow> bool" where
  "re_match [] s = True"
| "re_match (Chr c # p) [] = False"
| "re_match (Chr c # p) (x # s) = (x = c \<and> re_match p s)"
| "re_match (AnyStar # p) [] = re_match p []"
| "re_match (AnyStar # p) (x # s) =
     ((x \<noteq> CHR 0x0A \<and> re_match (AnyStar # p) s) \<or> re_match p (x # s))"

definition ARCHIS :: "string list" where
  "ARCHIS = [''wsn430:cc1101'', ''wsn430:cc2420'',
             ''m3:at86rf231'', ''a8:at86rf231'',
             ''des:wifi-cc1100'', ''custom:.*'']"

text \<open>
  \<^verbatim>\<open>ARCHI_RE = re.compile('|'.join('(%s)' % archi for archi in ARCHIS))\<close>: an
  alternation of groups, kept as the list of its compiled alternatives. The
  alternation matches when one alternative does.
\<close>

definition ARCHI_RE :: "atom list list" where
  "ARCHI_RE = map re_compile ARCHIS"

definition valid_archi :: "string \<Rightarrow> bool" where
  "valid_archi archi = list_ex (\<lambda>p. re_match p archi) ARCHI_RE"

subsection \<open>\<^verbatim>\<open>AliasNodes\<close>\<close>

record alias_properties =
  archi :: string
  site :: string
  mobile :: bool

record AliasNodes =
  "alias" :: string
  nbnodes :: int
  "properties" :: alias_properties

text \<open>
  \<^verbatim>\<open>AliasNodes._alias\<close> is a class attribute, the count of alias numbers given so
  far; it starts at 0. The functions that read or write it take its value and
  return the new one.
\<close>

definition alias_counter_start :: int where
  "alias_counter_start = 0"

definition alias_uid :: "int \<Rightarrow> alias_arg option \<Rightarrow> string \<times> int" where
  "alias_uid cnt alias_opt =
     (case alias_opt of
        None \<Rightarrow> (str_int (cnt + 1), cnt + 1)
      | Some a \<Rightarrow> (py_str a, cnt))"

definition AliasNodes_init ::
  "int \<Rightarrow> int \<Rightarrow> string \<Rightarrow> string \<Rightarrow> bool \<Rightarrow> alias_arg option \<Rightarrow> error + (AliasNodes \<times> int)" where
  "AliasNodes_init cnt nb st ar mob alias_opt =
     (if \<not> valid_archi ar then Inl (ArchiNotIn ar ARCHIS)
      else (case alias_uid cnt alias_opt of
              (uid, cnt') \<Rightarrow>
                Inr (\<lparr>alias = uid, nbnodes = nb,
                      properties = \<lparr>archi = ar, site = st, mobile = mob\<rparr>\<rparr>, cnt')))"

text \<open>
  A run of constructor calls in one process: each call gets the counter the
  previous one left. A call that raises leaves the counter as it was (the check
  of the architecture comes before \<^verbatim>\<open>_alias_uid\<close>), and the process goes on.
\<close>

record alias_call =
  call_nbnodes :: int
  call_site :: string
  call_archi :: string
  call_mobile :: bool
  call_alias :: "alias_arg option"

definition construct :: "int \<Rightarrow> alias_call \<Rightarrow> error + (AliasNodes \<times> int)" where
  "construct cnt c =
     AliasNodes_init cnt (call_nbnodes c) (call_site c) (call_archi c) (call_mobile c) (call_alias c)"

fun construct_seq :: "int \<Rightarrow> alias_call list \<Rightarrow> (error + AliasNodes) list \<times> int" where
  "construct_seq cnt [] = ([], cnt)"
| "construct_seq cnt (c # cs) =
     (case construct cnt c of
        Inl e \<Rightarrow> (case construct_seq cnt cs of (rs, cnt') \<Rightarrow> (Inl e # rs, cnt'))
      | Inr (obj, cnt1) \<Rightarrow> (case construct_seq cnt1 cs of (rs, cnt') \<Rightarrow> (Inr obj # rs, cnt')))"

text \<open>The alias ids that a run gave to the calls without an explicit id, in order.\<close>

fun auto_aliases :: "alias_call list \<Rightarrow> (error + AliasNodes) list \<Rightarrow> string list" where
  "auto_aliases (c # cs) (Inr obj # rs) =
     (if call_alias c = None then alias obj # auto_aliases cs rs else auto_aliases cs rs)"
| "auto_aliases (c # cs) (Inl e # rs) = auto_aliases cs rs"
| "auto_aliases _ _ = []"

subsection \<open>The poller: \<^verbatim>\<open>wait_state\<close>\<close>

text \<open>\<^verbatim>\<open>str.split(',')\<close>: the pieces between the separators; an empty string gives one empty piece.\<close>

fun split_on :: "char \<Rightarrow> string \<Rightarrow> string list" where
  "split_on c [] = [[]]"
| "split_on c (x # xs) =
     (if x = c then [] # split_on c xs
      else (case split_on c xs of w # ws \<Rightarrow> (x # w) # ws | [] \<Rightarrow> [[x]]))"

text \<open>
  \<^verbatim>\<open>_states_from_str\<close> is \<^verbatim>\<open>helpers.check_experiment_state(states_str).split(',')\<close>.
  \<^verbatim>\<open>helpers.check_experiment_state\<close> is not among the sources: it is a parameter here, a
  function that returns the string to split or raises.
\<close>

definition states_from_str :: "(string \<Rightarrow> error + string) \<Rightarrow> string \<Rightarrow> error + string list" where
  "states_from_str check_experiment_state states_str =
     (case check_experiment_state states_str of
        Inl err \<Rightarrow> Inl err
      | Inr checked \<Rightarrow> Inr (split_on CHR '','' checked))"

text \<open>
  \<^verbatim>\<open>STOPPED_STATES = set(_states_from_str('Terminated,Error'))\<close>, computed when the module
  is loaded: the check has returned the string as it is (the module would not load if it had
  raised). The set is kept as the list of its elements.
\<close>

definition STOPPED_STATES :: "string list" where
  "STOPPED_STATES = split_on CHR '','' ''Terminated,Error''"

text \<open>
  Times are the readings of \<^verbatim>\<open>time.time()\<close>, taken as real numbers; a timeout is a
  number or \<^verbatim>\<open>float('+inf')\<close>, the default. \<open>timeout now start_time tmo\<close> is
  \<^verbatim>\<open>_timeout(start_time, timeout)\<close> when its call of \<^verbatim>\<open>time.time()\<close> returns \<open>now\<close>.
\<close>

datatype pyfloat = Fin real | PosInf

definition timeout :: "real \<Rightarrow> real \<Rightarrow> pyfloat \<Rightarrow> bool" where
  "timeout now start_time tmo =
     (case tmo of PosInf \<Rightarrow> False | Fin t \<Rightarrow> now > start_time + t)"

text \<open>
  The loop of \<^verbatim>\<open>wait_state\<close>. The world it runs in is given by two functions:
  \<open>clock n\<close> is what the \<open>n\<close>-th call of \<^verbatim>\<open>time.time()\<close> returns (call 0 sets
  \<^verbatim>\<open>start_time\<close>, call \<open>i + 1\<close> is the check at the top of iteration \<open>i\<close>), and
  \<open>state_fct i\<close> is what the \<open>i\<close>-th call of \<^verbatim>\<open>state_fct\<close> returns or raises (an
  exception of the callback leaves the loop as it is). \<^verbatim>\<open>time.sleep(step)\<close> only lets time
  pass: what it does is in the next reading of the clock. The loop may run forever, so its
  result is an option; a result comes with the number of calls of \<^verbatim>\<open>state_fct\<close> made.
\<close>

partial_function (option) wait_loop ::
  "(nat \<Rightarrow> real) \<Rightarrow> (nat \<Rightarrow> error + string) \<Rightarrow> string \<Rightarrow> string list \<Rightarrow> pyfloat \<Rightarrow> real \<Rightarrow> nat
     \<Rightarrow> ((error + string) \<times> nat) option" where
  "wait_loop clock state_fct exp_str expected_states tmo start_time i =
     (if timeout (clock (Suc i)) start_time tmo then Some (Inl TimeoutReached, i)
      else (case state_fct i of
              Inl err \<Rightarrow> Some (Inl err, Suc i)
            | Inr state \<Rightarrow>
                if state \<in> set expected_states then Some (Inr state, Suc i)
                else if state \<in> set STOPPED_STATES
                  then Some (Inl (AlreadyInState exp_str state), Suc i)
                else wait_loop clock state_fct exp_str expected_states tmo start_time (Suc i)))"

definition wait_state ::
  "(string \<Rightarrow> error + string) \<Rightarrow> (nat \<Rightarrow> real) \<Rightarrow> (nat \<Rightarrow> error + string) \<Rightarrow> string \<Rightarrow> string \<Rightarrow> pyfloat
     \<Rightarrow> ((error + string) \<times> nat) option" where
  "wait_state check_experiment_state clock state_fct exp_str states tmo =
     (case states_from_str check_experiment_state states of
        Inl err \<Rightarrow> Some (Inl err, 0)
      | Inr expected_states \<Rightarrow>
          wait_loop clock state_fct exp_str expected_states tmo (clock 0) 0)"

text \<open>
  Some worlds to run the poller in: a check that accepts every string, a clock whose first
  two readings are the same instant and that reads five seconds later from then on, a
  scheduler that always answers Waiting, and one that answers Error from the third call on.
\<close>

definition accept_states :: "string \<Rightarrow> error + string" where
  "accept_states s = Inr s"

definition coarse_clock :: "nat \<Rightarrow> real" where
  "coarse_clock i = (if i < 2 then 0 else 5)"

definition always_waiting :: "nat \<Rightarrow> error + string" where
  "always_waiting i = Inr ''Waiting''"

definition waiting_then_error :: "nat \<Rightarrow> error + string" where
  "waiting_then_error i = (if i < 2 then Inr ''Waiting'' else Inr ''Error'')"

subsection \<open>File associations: \<^verbatim>\<open>nodes_association_name\<close>, \<^verbatim>\<open>_basename_if_in\<close>\<close>

definition NODES_ASSOCIATIONS_FILE_ASSOCS :: "string list" where
  "NODES_ASSOCIATIONS_FILE_ASSOCS = [''firmware'']"

text \<open>
  \<^verbatim>\<open>os.path.basename\<close> (POSIX): what follows the last slash, the whole path when it
  has none.
\<close>

definition basename :: "string \<Rightarrow> string" where
  "basename p = rev (takeWhile (\<lambda>c. c \<noteq> CHR ''/'') (rev p))"

definition basename_if_in :: "'v \<Rightarrow> 'k \<Rightarrow> 'k list \<Rightarrow> ('v \<Rightarrow> 'v) \<Rightarrow> 'v" where
  "basename_if_in v k container transform = (if k \<in> set container then transform v else v)"

definition nodes_association_name :: "string \<Rightarrow> string \<Rightarrow> string" where
  "nodes_association_name assoctype assocname =
     basename_if_in assocname assoctype NODES_ASSOCIATIONS_FILE_ASSOCS basename"

subsection \<open>\<^verbatim>\<open>AssociationsMap\<close>\<close>

text \<open>
  Modelled from the spec: the class \<^verbatim>\<open>AssociationsMap\<close> and the function
  \<^verbatim>\<open>associationsmapdict_from_dict\<close> of \<^verbatim>\<open>iotlabcli/associations.py\<close>, which is not
  among the sources. The spec (3, 4.2): a map has an association type and an
  ordered sequence of entries, each a value name with the ordered set of the node
  references it applies to; entries keep the order in which their value names were
  first seen. \<^verbatim>\<open>experiment.py\<close> constructs every map with
  \<^verbatim>\<open>resource='nodes'\<close> and a sort key for node references
  (\<^verbatim>\<open>_NODESMAPKWARGS\<close>); the key, \<^verbatim>\<open>helpers.node_url_sort_key\<close>, is not among the
  sources either and is a parameter \<open>sortkey\<close> of the functions that sort.
\<close>

record AssociationsMap =
  assoctype :: string
  resource :: string
  entries :: "(string \<times> string list) list"

definition AssociationsMap_init :: "string \<Rightarrow> string \<Rightarrow> AssociationsMap" where
  "AssociationsMap_init atype res = \<lparr>assoctype = atype, resource = res, entries = []\<rparr>"

text \<open>
  Modelled from the spec: \<^verbatim>\<open>keys()\<close>, "the distinct value names in insertion order".
\<close>

definition keys :: "AssociationsMap \<Rightarrow> string list" where
  "keys m = map fst (entries m)"

text \<open>
  Modelled from the spec: \<^verbatim>\<open>extendvalues\<close> (the spec's \<^verbatim>\<open>extend\<close>). It "normalizes
  value_name via basename-if-file-type; if value_name already has an entry, appends
  node_refs to its node-set; otherwise creates a new entry preserving first-seen
  order. Fails with ConflictError if any node in node_refs is already present under
  a different value_name in this map." The node-set of an entry is kept without
  duplicates and sorted by the key.
\<close>

definition extendvalues ::
  "(string \<Rightarrow> 'k::linorder) \<Rightarrow> AssociationsMap \<Rightarrow> string \<Rightarrow> string list \<Rightarrow> error + AssociationsMap" where
  "extendvalues sortkey m value_name vals =
     (let nm = nodes_association_name (assoctype m) value_name;
          clash = filter (\<lambda>v. \<exists>(n, vs)\<in>set (entries m). n \<noteq> nm \<and> v \<in> set vs) vals
      in if clash \<noteq> [] then Inl (ConflictError nm clash)
         else if nm \<in> set (keys m)
           then Inr (m\<lparr>entries :=
                  map (\<lambda>(n, vs). if n = nm then (n, sort_key sortkey (remdups (vs @ vals))) else (n, vs))
                    (entries m)\<rparr>)
         else Inr (m\<lparr>entries := entries m @ [(nm, sort_key sortkey (remdups vals))]\<rparr>))"

text \<open>
  Modelled from the spec: the serialized form of a map (6), "an ordered list of
  {value_name, node_refs}" records. The two field names of a record are the
  association type followed by \<^verbatim>\<open>name\<close> (\<^verbatim>\<open>firmwarename\<close>, as
  \<^verbatim>\<open>experiment_parser.py\<close> reads it) and the resource name (\<^verbatim>\<open>nodes\<close>).
\<close>

definition AssociationsMap_list :: "AssociationsMap \<Rightarrow> json" where
  "AssociationsMap_list m =
     JArr (map (\<lambda>(n, vs). JObj [(assoctype m @ ''name'', JStr n), (resource m, JArr (map JStr vs))])
             (entries m))"

text \<open>
  Modelled from the spec: reading one serialized record back, the value name under the
  first field name and the list of node references under the second. A record of another
  shape is not structurally well-formed.
\<close>

fun strings_of :: "json list \<Rightarrow> string list option" where
  "strings_of [] = Some []"
| "strings_of (JStr s # js) = map_option ((#) s) (strings_of js)"
| "strings_of (_ # js) = None"

definition entry_of :: "string \<Rightarrow> string \<Rightarrow> json \<Rightarrow> error + (string \<times> string list)" where
  "entry_of atype res j =
     (case j of
        JObj kv \<Rightarrow>
          (case (map_of kv (atype @ ''name''), map_of kv res) of
             (Some (JStr n), Some (JArr vs)) \<Rightarrow>
               (case strings_of vs of
                  Some l \<Rightarrow> Inr (n, l)
                | None \<Rightarrow> Inl (MalformedDescription atype))
           | _ \<Rightarrow> Inl (MalformedDescription atype))
      | _ \<Rightarrow> Inl (MalformedDescription atype))"

fun entries_of :: "string \<Rightarrow> string \<Rightarrow> json list \<Rightarrow> error + (string \<times> string list) list" where
  "entries_of atype res [] = Inr []"
| "entries_of atype res (j # js) =
     (case entry_of atype res j of
        Inl err \<Rightarrow> Inl err
      | Inr en \<Rightarrow>
          (case entries_of atype res js of
             Inl err \<Rightarrow> Inl err
           | Inr ens \<Rightarrow> Inr (en # ens)))"

text \<open>
  Modelled from the spec: \<^verbatim>\<open>AssociationsMap.from_list\<close>, which "reconstructs a map
  from a previously serialized ordered list of {value_name, node_refs} records
  without conflict re-validation (trusted input)"; the loader checks "structural
  well-formedness" only. \<^verbatim>\<open>_load_assocs\<close> passes \<^verbatim>\<open>None\<close> for a missing list, and
  the attribute stays \<^verbatim>\<open>None\<close> (the case \<^verbatim>\<open>filenames\<close> handles).
\<close>

definition from_list :: "json \<Rightarrow> string \<Rightarrow> string \<Rightarrow> error + AssociationsMap option" where
  "from_list assoclist atype res =
     (case assoclist of
        JNull \<Rightarrow> Inr None
      | JArr js \<Rightarrow>
          (case entries_of atype res js of
             Inl err \<Rightarrow> Inl err
           | Inr ens \<Rightarrow> Inr (Some \<lparr>assoctype = atype, resource = res, entries = ens\<rparr>))
      | _ \<Rightarrow> Inl (MalformedDescription atype))"

text \<open>
  Modelled from the spec: the items of the serialized \<^verbatim>\<open>associations\<close> mapping, read
  back one association type after the other.
\<close>

fun maps_of :: "string \<Rightarrow> (string \<times> json) list \<Rightarrow> error + (string \<times> AssociationsMap) list" where
  "maps_of res [] = Inr []"
| "maps_of res ((atype, raw) # rest) =
     (case from_list raw atype res of
        Inl err \<Rightarrow> Inl err
      | Inr None \<Rightarrow> Inl (MalformedDescription atype)
      | Inr (Some m) \<Rightarrow>
          (case maps_of res rest of
             Inl err \<Rightarrow> Inl err
           | Inr ms \<Rightarrow> Inr ((atype, m) # ms)))"

text \<open>
  Modelled from the spec: \<^verbatim>\<open>associationsmapdict_from_dict\<close>, the maps of the generic
  \<^verbatim>\<open>associations\<close> mapping "keyed by type name", each rebuilt by \<^verbatim>\<open>from_list\<close>.
\<close>

definition associationsmapdict_from_dict ::
  "json \<Rightarrow> string \<Rightarrow> error + (string \<times> AssociationsMap) list option" where
  "associationsmapdict_from_dict assocsdict res =
     (case assocsdict of
        JNull \<Rightarrow> Inr None
      | JObj items \<Rightarrow>
          (case maps_of res items of
             Inl err \<Rightarrow> Inl err
           | Inr ms \<Rightarrow> Inr (Some ms))
      | _ \<Rightarrow> Inl (MalformedDescription ''associations''))"

subsection \<open>\<^verbatim>\<open>_Experiment\<close>\<close>

text \<open>
  An element of \<^verbatim>\<open>self.nodes\<close> of an experiment under construction: a node
  address, an \<^verbatim>\<open>AliasNodes\<close> object, or a whole list of addresses
  (\<^verbatim>\<open>set_alias_nodes\<close> appends whatever it is given). The argument
  \<^verbatim>\<open>resources['nodes']\<close> is a list of addresses or an \<^verbatim>\<open>AliasNodes\<close> object.
\<close>

datatype node = Address string | Alias AliasNodes | Nested "string list"

datatype nodes_arg = NodeList "string list" | AliasGroup AliasNodes

text \<open>
  The object. \<^verbatim>\<open>type\<close> is \<^verbatim>\<open>None\<close> (\<open>JNull\<close>) or a string. The type of the field
  \<^verbatim>\<open>nodes\<close> is a parameter: a \<open>node list\<close> in an experiment that is built by
  \<^verbatim>\<open>add_exp_resources\<close>, a JSON value in one that \<^verbatim>\<open>from_dict\<close> loads (it
  stores what the description holds, unchecked). \<^verbatim>\<open>associations\<close> is a dictionary
  from association types to maps, kept in insertion order.
\<close>

record 'n Experiment =
  duration :: json
  reservation :: json
  name :: json
  type :: json
  nodes :: 'n
  firmwareassociations :: "AssociationsMap option"
  profileassociations :: "AssociationsMap option"
  associations :: "(string \<times> AssociationsMap) list option"

definition Experiment_init :: "json \<Rightarrow> json \<Rightarrow> json \<Rightarrow> node list Experiment" where
  "Experiment_init nm dur start_time =
     \<lparr>duration = dur, reservation = start_time, name = nm,
      type = JNull, nodes = [],
      firmwareassociations = None, profileassociations = None, associations = None\<rparr>"

text \<open>
  \<^verbatim>\<open>_firmwareassociations\<close>, \<^verbatim>\<open>_profileassociations\<close> and \<^verbatim>\<open>_associations\<close>: the map
  to extend, a new one when the attribute is \<^verbatim>\<open>None\<close> (\<^verbatim>\<open>setattr_if_none\<close>) or the
  dictionary has no such type (\<^verbatim>\<open>setdefault\<close>). The source extends the map in place;
  here the extended map is stored back (\<open>set_association\<close> for the dictionary).
\<close>

definition get_firmwareassociations :: "'n Experiment \<Rightarrow> AssociationsMap" where
  "get_firmwareassociations e =
     (case firmwareassociations e of
        None \<Rightarrow> AssociationsMap_init ''firmware'' ''nodes''
      | Some m \<Rightarrow> m)"

definition get_profileassociations :: "'n Experiment \<Rightarrow> AssociationsMap" where
  "get_profileassociations e =
     (case profileassociations e of
        None \<Rightarrow> AssociationsMap_init ''profile'' ''nodes''
      | Some m \<Rightarrow> m)"

definition get_associations :: "'n Experiment \<Rightarrow> string \<Rightarrow> AssociationsMap" where
  "get_associations e atype =
     (case associations e of
        None \<Rightarrow> AssociationsMap_init atype ''nodes''
      | Some d \<Rightarrow>
          (case map_of d atype of
             None \<Rightarrow> AssociationsMap_init atype ''nodes''
           | Some m \<Rightarrow> m))"

fun dict_set :: "string \<Rightarrow> 'v \<Rightarrow> (string \<times> 'v) list \<Rightarrow> (string \<times> 'v) list" where
  "dict_set k v [] = [(k, v)]"
| "dict_set k v ((k', v') # d) = (if k' = k then (k, v) # d else (k', v') # dict_set k v d)"

definition set_association :: "'n Experiment \<Rightarrow> string \<Rightarrow> AssociationsMap \<Rightarrow> 'n Experiment" where
  "set_association e atype m =
     e\<lparr>associations := Some (dict_set atype m (case associations e of None \<Rightarrow> [] | Some d \<Rightarrow> d))\<rparr>"

definition set_type :: "'n Experiment \<Rightarrow> string \<Rightarrow> error + 'n Experiment" where
  "set_type e exp_type =
     (if type e \<noteq> JNull \<and> type e \<noteq> JStr exp_type then Inl ModeConflict
      else Inr (e\<lparr>type := JStr exp_type\<rparr>))"

text \<open>
  The node addresses in \<^verbatim>\<open>self.nodes\<close>, when it holds nothing else. An object or a
  list among them cannot be hashed or sorted as an address:
  \<^verbatim>\<open>set_physical_nodes\<close> raises on it.
\<close>

fun addresses :: "node list \<Rightarrow> string list option" where
  "addresses [] = Some []"
| "addresses (Address a # ns) = map_option ((#) a) (addresses ns)"
| "addresses (_ # ns) = None"

text \<open>
  \<^verbatim>\<open>set_physical_nodes\<close>. Python leaves the order of \<^verbatim>\<open>list(set(...))\<close> open; here a
  set is listed in the order of first occurrence (\<open>remdups\<close> keeps one copy of each
  element). \<^verbatim>\<open>sorted(..., key=helpers.node_url_sort_key)\<close> is the stable sort by the
  key; the key is the parameter \<open>sortkey\<close>.
\<close>

definition set_physical_nodes ::
  "(string \<Rightarrow> 'k::linorder) \<Rightarrow> node list Experiment \<Rightarrow> string list \<Rightarrow> error + node list Experiment" where
  "set_physical_nodes sortkey e nodes_list =
     (case set_type e ''physical'' of
        Inl err \<Rightarrow> Inl err
      | Inr e1 \<Rightarrow>
          (case addresses (nodes e1) of
             None \<Rightarrow> Inl (TypeError ''unhashable type'')
           | Some cur \<Rightarrow>
               (let intersect = filter (\<lambda>n. n \<in> set nodes_list) (remdups cur)
                in if intersect \<noteq> [] then Inl (NodesSpecifiedMultipleTimes intersect)
                   else Inr (e1\<lparr>nodes :=
                          map Address (sort_key sortkey (remdups (cur @ nodes_list)))\<rparr>))))"

definition set_alias_nodes :: "node list Experiment \<Rightarrow> nodes_arg \<Rightarrow> error + node list Experiment" where
  "set_alias_nodes e alias_nodes =
     (case set_type e ''alias'' of
        Inl err \<Rightarrow> Inl err
      | Inr e1 \<Rightarrow>
          Inr (e1\<lparr>nodes := nodes e1 @
                 [case alias_nodes of AliasGroup a \<Rightarrow> Alias a | NodeList l \<Rightarrow> Nested l]\<rparr>))"

text \<open>
  \<^verbatim>\<open>_register_nodes\<close> looks the method up by \<^verbatim>\<open>self.type\<close> and the caller applies
  it to the nodes. \<^verbatim>\<open>set_physical_nodes\<close> on an \<^verbatim>\<open>AliasNodes\<close> object fails: the
  object is not iterable.
\<close>

definition register_nodes ::
  "(string \<Rightarrow> 'k::linorder) \<Rightarrow> node list Experiment \<Rightarrow> nodes_arg \<Rightarrow> error + node list Experiment" where
  "register_nodes sortkey e nds =
     (if type e = JStr ''physical''
        then (case nds of
                NodeList l \<Rightarrow> set_physical_nodes sortkey e l
              | AliasGroup a \<Rightarrow> Inl (TypeError ''AliasNodes object is not iterable''))
      else if type e = JStr ''alias'' then set_alias_nodes e nds
      else Inl (KeyError (type e)))"

text \<open>
  \<^verbatim>\<open>_nodes_to_assoc\<close>: \<^verbatim>\<open>[nodes.alias]\<close> in an alias experiment (a list has no such
  attribute), the nodes themselves otherwise (an \<^verbatim>\<open>AliasNodes\<close> object cannot be
  used as the list of values of an association).
\<close>

definition nodes_to_assoc :: "'n Experiment \<Rightarrow> nodes_arg \<Rightarrow> error + string list" where
  "nodes_to_assoc e nds =
     (if type e = JStr ''alias''
        then (case nds of
                AliasGroup a \<Rightarrow> Inr [alias a]
              | NodeList l \<Rightarrow> Inl (AttributeError ''alias''))
      else (case nds of
              NodeList l \<Rightarrow> Inr l
            | AliasGroup a \<Rightarrow> Inl (TypeError ''AliasNodes object is not iterable'')))"

text \<open>
  The dictionary that \<^verbatim>\<open>exp_resources\<close> creates. \<^verbatim>\<open>associations\<close> is the dictionary
  of the other name associations, in the order of its items.
\<close>

record resources =
  res_type :: string
  res_nodes :: nodes_arg
  res_firmware :: "string option"
  res_profile :: "string option"
  res_associations :: "(string \<times> string) list"

definition exp_resources ::
  "nodes_arg \<Rightarrow> string option \<Rightarrow> string option \<Rightarrow> (string \<times> string) list \<Rightarrow> resources" where
  "exp_resources nds firmware_path profile_name assocs =
     \<lparr>res_type = (case nds of AliasGroup a \<Rightarrow> ''alias'' | NodeList l \<Rightarrow> ''physical''),
      res_nodes = nds, res_firmware = firmware_path, res_profile = profile_name,
      res_associations = assocs\<rparr>"

text \<open>
  The three places where \<^verbatim>\<open>add_exp_resources\<close> hands a value name to a map: its
  firmware block, its profile block and \<^verbatim>\<open>_add_nodes_association\<close>. Each computes the
  name with \<^verbatim>\<open>nodes_association_name\<close> and calls the method \<^verbatim>\<open>extendvalues\<close> of the
  map with that name and the nodes. The method is not among the sources: in
  \<open>add_nodes_association_with\<close>, \<open>add_firmware_with\<close> and \<open>add_profile_with\<close> it is
  the parameter \<open>ext\<close>, so that what the source passes to it can be stated whatever the
  method does. \<open>add_nodes_association\<close>, \<open>add_firmware\<close> and \<open>add_profile\<close> are
  the same code with the method modelled from the spec.
\<close>

definition add_nodes_association_with ::
  "(AssociationsMap \<Rightarrow> string \<Rightarrow> string list \<Rightarrow> error + AssociationsMap) \<Rightarrow>
     'n Experiment \<Rightarrow> string list \<Rightarrow> string \<Rightarrow> string \<Rightarrow> error + 'n Experiment" where
  "add_nodes_association_with ext e nds atype assocname =
     (case ext (get_associations e atype) (nodes_association_name atype assocname) nds of
        Inl err \<Rightarrow> Inl err
      | Inr m \<Rightarrow> Inr (set_association e atype m))"

definition add_nodes_association ::
  "(string \<Rightarrow> 'k::linorder) \<Rightarrow> 'n Experiment \<Rightarrow> string list \<Rightarrow> string \<Rightarrow> string \<Rightarrow> error + 'n Experiment" where
  "add_nodes_association sortkey e nds atype assocname =
     add_nodes_association_with (extendvalues sortkey) e nds atype assocname"

text \<open>The loop over \<^verbatim>\<open>associations.items()\<close> at the end of \<^verbatim>\<open>add_exp_resources\<close>.\<close>

fun add_associations ::
  "(string \<Rightarrow> 'k::linorder) \<Rightarrow> 'n Experiment \<Rightarrow> string list \<Rightarrow> (string \<times> string) list \<Rightarrow> error + 'n Experiment" where
  "add_associations sortkey e nds [] = Inr e"
| "add_associations sortkey e nds ((atype, assocname) # rest) =
     (case add_nodes_association sortkey e nds atype assocname of
        Inl err \<Rightarrow> Inl err
      | Inr e' \<Rightarrow> add_associations sortkey e' nds rest)"

definition add_firmware_with ::
  "(AssociationsMap \<Rightarrow> string \<Rightarrow> string list \<Rightarrow> error + AssociationsMap) \<Rightarrow>
     'n Experiment \<Rightarrow> string option \<Rightarrow> string list \<Rightarrow> error + 'n Experiment" where
  "add_firmware_with ext e fw nds =
     (case fw of
        None \<Rightarrow> Inr e
      | Some f \<Rightarrow>
          (case ext (get_firmwareassociations e) (nodes_association_name ''firmware'' f) nds of
             Inl err \<Rightarrow> Inl err
           | Inr m \<Rightarrow> Inr (e\<lparr>firmwareassociations := Some m\<rparr>)))"

definition add_firmware ::
  "(string \<Rightarrow> 'k::linorder) \<Rightarrow> 'n Experiment \<Rightarrow> string option \<Rightarrow> string list \<Rightarrow> error + 'n Experiment" where
  "add_firmware sortkey e fw nds = add_firmware_with (extendvalues sortkey) e fw nds"

definition add_profile_with ::
  "(AssociationsMap \<Rightarrow> string \<Rightarrow> string list \<Rightarrow> error + AssociationsMap) \<Rightarrow>
     'n Experiment \<Rightarrow> string option \<Rightarrow> string list \<Rightarrow> error + 'n Experiment" where
  "add_profile_with ext e pr nds =
     (case pr of
        None \<Rightarrow> Inr e
      | Some p \<Rightarrow>
          (case ext (get_profileassociations e) (nodes_association_name ''profile'' p) nds of
             Inl err \<Rightarrow> Inl err
           | Inr m \<Rightarrow> Inr (e\<lparr>profileassociations := Some m\<rparr>)))"

definition add_profile ::
  "(string \<Rightarrow> 'k::linorder) \<Rightarrow> 'n Experiment \<Rightarrow> string option \<Rightarrow> string list \<Rightarrow> error + 'n Experiment" where
  "add_profile sortkey e pr nds = add_profile_with (extendvalues sortkey) e pr nds"

text \<open>
  \<^verbatim>\<open>add_exp_resources\<close>: the type, the nodes, then the firmware, the profile and the
  other associations (\<open>add_firmware\<close> and \<open>add_profile\<close> are its two \<^verbatim>\<open>if\<close>
  blocks).
\<close>

definition add_exp_resources ::
  "(string \<Rightarrow> 'k::linorder) \<Rightarrow> node list Experiment \<Rightarrow> resources \<Rightarrow> error + node list Experiment" where
  "add_exp_resources sortkey e r =
     (case set_type e (res_type r) of
        Inl err \<Rightarrow> Inl err
      | Inr e1 \<Rightarrow>
     (case register_nodes sortkey e1 (res_nodes r) of
        Inl err \<Rightarrow> Inl err
      | Inr e2 \<Rightarrow>
     (case nodes_to_assoc e2 (res_nodes r) of
        Inl err \<Rightarrow> Inl err
      | Inr nds \<Rightarrow>
     (case add_firmware sortkey e2 (res_firmware r) nds of
        Inl err \<Rightarrow> Inl err
      | Inr e3 \<Rightarrow>
     (case add_profile sortkey e3 (res_profile r) nds of
        Inl err \<Rightarrow> Inl err
      | Inr e4 \<Rightarrow> add_associations sortkey e4 nds (res_associations r))))))"

text \<open>
  The loop of \<^verbatim>\<open>submit_experiment\<close>: \<^verbatim>\<open>add_exp_resources\<close> for each resources
  dictionary in turn; the first exception ends it.
\<close>

fun add_all ::
  "(string \<Rightarrow> 'k::linorder) \<Rightarrow> node list Experiment \<Rightarrow> resources list \<Rightarrow> error + node list Experiment" where
  "add_all sortkey e [] = Inr e"
| "add_all sortkey e (r # rs) =
     (case add_exp_resources sortkey e r of
        Inl err \<Rightarrow> Inl err
      | Inr e' \<Rightarrow> add_all sortkey e' rs)"

text \<open>
  \<^verbatim>\<open>filenames\<close>: the keys of the firmware map, none when the attribute is
  \<^verbatim>\<open>None\<close>. (Its assertion compares the constant
  \<^verbatim>\<open>NODES_ASSOCIATIONS_FILE_ASSOCS\<close> with its own value and never fails.)
\<close>

definition filenames :: "'n Experiment \<Rightarrow> string list" where
  "filenames e = (case firmwareassociations e of None \<Rightarrow> [] | Some m \<Rightarrow> keys m)"

subsection \<open>The description: serializing and loading\<close>

text \<open>
  Modelled from the spec: the JSON encoder of \<^verbatim>\<open>helpers\<close>, which is not among the
  sources. An \<^verbatim>\<open>AliasNodes\<close> object is written as the docstring of its constructor
  gives it, an address as a string, an association map as its list of records (6), a
  missing map as \<^verbatim>\<open>null\<close>.
\<close>

definition AliasNodes_json :: "AliasNodes \<Rightarrow> json" where
  "AliasNodes_json a =
     JObj [(''alias'', JStr (alias a)),
           (''nbnodes'', JInt (nbnodes a)),
           (''properties'',
              JObj [(''archi'', JStr (archi (properties a))),
                    (''site'', JStr (site (properties a))),
                    (''mobile'', JBool (mobile (properties a)))])]"

fun node_json :: "node \<Rightarrow> json" where
  "node_json (Address a) = JStr a"
| "node_json (Alias a) = AliasNodes_json a"
| "node_json (Nested l) = JArr (map JStr l)"

definition nodes_json :: "node list \<Rightarrow> json" where
  "nodes_json ns = JArr (map node_json ns)"

definition assocs_json :: "AssociationsMap option \<Rightarrow> json" where
  "assocs_json mo = (case mo of None \<Rightarrow> JNull | Some m \<Rightarrow> AssociationsMap_list m)"

definition assocsdict_json :: "(string \<times> AssociationsMap) list option \<Rightarrow> json" where
  "assocsdict_json d_opt =
     (case d_opt of
        None \<Rightarrow> JNull
      | Some d \<Rightarrow> JObj (map (\<lambda>(atype, m). (atype, AssociationsMap_list m)) d))"

text \<open>
  Modelled from the spec: \<^verbatim>\<open>serialize\<close> (the JSON encoder of \<^verbatim>\<open>helpers\<close> applied to
  the experiment, not among the sources). The canonical description (4.3, 6) has the
  fields \<^verbatim>\<open>name\<close>, \<^verbatim>\<open>duration\<close>, \<^verbatim>\<open>reservation\<close>, \<^verbatim>\<open>type\<close>, \<^verbatim>\<open>nodes\<close>,
  \<^verbatim>\<open>firmwareassociations\<close>, \<^verbatim>\<open>profileassociations\<close> and the generic
  \<^verbatim>\<open>associations\<close> mapping. The first argument writes the field \<^verbatim>\<open>nodes\<close>:
  \<open>nodes_json\<close> for an experiment that was built, the identity for one that was
  loaded and holds JSON already.
\<close>

definition serialize :: "('n \<Rightarrow> json) \<Rightarrow> 'n Experiment \<Rightarrow> json" where
  "serialize enc e =
     JObj [(''name'', name e),
           (''duration'', duration e),
           (''reservation'', reservation e),
           (''type'', type e),
           (''nodes'', enc (nodes e)),
           (''firmwareassociations'', assocs_json (firmwareassociations e)),
           (''profileassociations'', assocs_json (profileassociations e)),
           (''associations'', assocsdict_json (associations e))]"

text \<open>\<^verbatim>\<open>dict.pop(key)\<close>: the value and the dictionary without the key, or \<^verbatim>\<open>KeyError\<close>.\<close>

definition dict_pop :: "string \<Rightarrow> (string \<times> json) list \<Rightarrow> error + (json \<times> (string \<times> json) list)" where
  "dict_pop k d =
     (case map_of d k of
        None \<Rightarrow> Inl (KeyError (JStr k))
      | Some v \<Rightarrow> Inr (v, filter (\<lambda>kv. fst kv \<noteq> k) d))"

definition kwarg :: "(string \<times> json) list \<Rightarrow> string \<Rightarrow> json" where
  "kwarg kwargs k = (case map_of kwargs k of None \<Rightarrow> JNull | Some v \<Rightarrow> v)"

text \<open>
  \<^verbatim>\<open>_load_assocs(**exp_dict)\<close>: a keyword it does not know is a \<^verbatim>\<open>TypeError\<close>; a
  missing one is \<^verbatim>\<open>None\<close>.
\<close>

definition load_assocs :: "'n Experiment \<Rightarrow> (string \<times> json) list \<Rightarrow> error + 'n Experiment" where
  "load_assocs e kwargs =
     (if \<exists>k\<in>set (map fst kwargs).
            k \<notin> set [''firmwareassociations'', ''profileassociations'', ''associations'']
        then Inl (TypeError ''unexpected keyword argument'')
      else
     (case from_list (kwarg kwargs ''firmwareassociations'') ''firmware'' ''nodes'' of
        Inl err \<Rightarrow> Inl err
      | Inr fw \<Rightarrow>
     (case from_list (kwarg kwargs ''profileassociations'') ''profile'' ''nodes'' of
        Inl err \<Rightarrow> Inl err
      | Inr pr \<Rightarrow>
     (case associationsmapdict_from_dict (kwarg kwargs ''associations'') ''nodes'' of
        Inl err \<Rightarrow> Inl err
      | Inr ad \<Rightarrow>
          Inr (e\<lparr>firmwareassociations := fw, profileassociations := pr, associations := ad\<rparr>)))))"

definition from_dict :: "(string \<times> json) list \<Rightarrow> error + json Experiment" where
  "from_dict exp_dict =
     (case dict_pop ''name'' exp_dict of
        Inl err \<Rightarrow> Inl err
      | Inr (nm, d1) \<Rightarrow>
     (case dict_pop ''duration'' d1 of
        Inl err \<Rightarrow> Inl err
      | Inr (dur, d2) \<Rightarrow>
     (case dict_pop ''reservation'' d2 of
        Inl err \<Rightarrow> Inl err
      | Inr (resv, d3) \<Rightarrow>
     (case dict_pop ''type'' d3 of
        Inl err \<Rightarrow> Inl err
      | Inr (ty, d4) \<Rightarrow>
     (case dict_pop ''nodes'' d4 of
        Inl err \<Rightarrow> Inl err
      | Inr (nds, d5) \<Rightarrow>
          load_assocs
            \<lparr>duration = dur, reservation = resv, name = nm, type = ty, nodes = nds,
             firmwareassociations = None, profileassociations = None, associations = None\<rparr>
            d5)))))"

subsection \<open>Example inputs\<close>

text \<open>
  A new experiment, an alias group, and resources dictionaries as \<^verbatim>\<open>exp_resources\<close>
  creates them. Node addresses are sorted by their length in the examples.
\<close>

definition new_example :: "node list Experiment" where
  "new_example = Experiment_init (JStr ''exp'') (JInt 20) JNull"

definition alias_example :: AliasNodes where
  "alias_example =
     \<lparr>alias = ''1'', nbnodes = 5,
      properties = \<lparr>archi = ''m3:at86rf231'', site = ''grenoble'', mobile = False\<rparr>\<rparr>"

definition physical_group1 :: resources where
  "physical_group1 =
     exp_resources (NodeList [''bb'', ''a'', ''bb'']) (Some ''dir/b.elf'') (Some ''p/q'')
       [(''mobility'', ''x/y'')]"

definition physical_group2 :: resources where
  "physical_group2 = exp_resources (NodeList [''ccc'']) (Some ''a.elf'') None []"

definition alias_group1 :: resources where
  "alias_group1 = exp_resources (AliasGroup alias_example) (Some ''fw/c.elf'') None []"

text \<open>
  A map method that stores the name it is given as it is given, in a new entry, and does
  nothing else to it.
\<close>

definition store_as_given :: "AssociationsMap \<Rightarrow> string \<Rightarrow> string list \<Rightarrow> error + AssociationsMap" where
  "store_as_given m value_name vals = Inr (m\<lparr>entries := entries m @ [(value_name, vals)]\<rparr>)"

text \<open>The experiments that these groups build: after the first physical group, after both, and after the alias group.\<close>

definition physical_built1 :: "node list Experiment" where
  "physical_built1 =
     \<lparr>duration = JInt 20, reservation = JNull, name = JStr ''exp'',
      type = JStr ''physical'',
      nodes = [Address ''a'', Address ''bb''],
      firmwareassociations =
        Some \<lparr>assoctype = ''firmware'', resource = ''nodes'',
              entries = [(''b.elf'', [''a'', ''bb''])]\<rparr>,
      profileassociations =
        Some \<lparr>assoctype = ''profile'', resource = ''nodes'',
              entries = [(''p/q'', [''a'', ''bb''])]\<rparr>,
      associations =
        Some [(''mobility'', \<lparr>assoctype = ''mobility'', resource = ''nodes'',
                               entries = [(''x/y'', [''a'', ''bb''])]\<rparr>)]\<rparr>"

definition physical_built :: "node list Experiment" where
  "physical_built =
     physical_built1
       \<lparr>nodes := [Address ''a'', Address ''bb'', Address ''ccc''],
        firmwareassociations :=
          Some \<lparr>assoctype = ''firmware'', resource = ''nodes'',
                entries = [(''b.elf'', [''a'', ''bb'']), (''a.elf'', [''ccc''])]\<rparr>\<rparr>"

definition alias_built :: "node list Experiment" where
  "alias_built =
     \<lparr>duration = JInt 20, reservation = JNull, name = JStr ''exp'',
      type = JStr ''alias'',
      nodes = [Alias alias_example],
      firmwareassociations =
        Some \<lparr>assoctype = ''firmware'', resource = ''nodes'', entries = [(''c.elf'', [''1''])]\<rparr>,
      profileassociations = None, associations = None\<rparr>"

subsection \<open>Predicates used in the properties\<close>

text \<open>
  A map has the association type \<open>t\<close> and the resource name \<^verbatim>\<open>nodes\<close>, as the maps
  that \<^verbatim>\<open>_Experiment\<close> creates have; in a well-formed experiment every map has the type
  of the attribute or dictionary key it is stored under.
\<close>

definition wf_map :: "string \<Rightarrow> AssociationsMap \<Rightarrow> bool" where
  "wf_map t m \<longleftrightarrow> assoctype m = t \<and> resource m = ''nodes''"

definition wf_experiment :: "'n Experiment \<Rightarrow> bool" where
  "wf_experiment e \<longleftrightarrow>
     (case firmwareassociations e of None \<Rightarrow> True | Some m \<Rightarrow> wf_map ''firmware'' m) \<and>
     (case profileassociations e of None \<Rightarrow> True | Some m \<Rightarrow> wf_map ''profile'' m) \<and>
     (case associations e of None \<Rightarrow> True | Some d \<Rightarrow> list_all (\<lambda>(t, m). wf_map t m) d)"

text \<open>
  The value name \<open>k\<close> is recorded for the node references \<open>nds\<close>: the map has an
  entry named \<open>k\<close> whose node-set holds all of them.
\<close>

definition recorded_in :: "AssociationsMap option \<Rightarrow> string \<Rightarrow> string list \<Rightarrow> bool" where
  "recorded_in mo k nds =
     (case mo of
        None \<Rightarrow> False
      | Some m \<Rightarrow> list_ex (\<lambda>(k', vs). k' = k \<and> set nds \<subseteq> set vs) (entries m))"

definition recorded_assoc ::
  "(string \<times> AssociationsMap) list option \<Rightarrow> string \<Rightarrow> string \<Rightarrow> string list \<Rightarrow> bool" where
  "recorded_assoc d_opt t k nds =
     (case d_opt of None \<Rightarrow> False | Some d \<Rightarrow> recorded_in (map_of d t) k nds)"

section \<open>Properties\<close>

subsection \<open>Architecture validation\<close>

lemma re_match_literal:
  "re_match (map Chr l @ p) s \<longleftrightarrow> (\<exists>r. s = l @ r \<and> re_match p r)"
proof (induction l arbitrary: s)
  case Nil
  then show ?case by simp
next
  case (Cons c l)
  then show ?case by (cases s) auto
qed

lemma re_match_any_star: "re_match [AnyStar] s"
  by (induction s) auto

lemma re_match_literal_only: "re_match (map Chr l) s \<longleftrightarrow> prefix l s"
  using re_match_literal [of l "[]" s] by (auto simp: prefix_def)

lemma re_match_literal_star: "re_match (map Chr l @ [AnyStar]) s \<longleftrightarrow> prefix l s"
  by (auto simp: re_match_literal re_match_any_star prefix_def)

lemma ARCHI_RE_unfolded:
  "ARCHI_RE = [map Chr ''wsn430:cc1101'', map Chr ''wsn430:cc2420'',
               map Chr ''m3:at86rf231'', map Chr ''a8:at86rf231'',
               map Chr ''des:wifi-cc1100'', map Chr ''custom:'' @ [AnyStar]]"
  by (simp add: ARCHI_RE_def ARCHIS_def)

text \<open>
  What \<^verbatim>\<open>_valid_archi\<close> accepts: every string that starts with one of the five
  literal names or with \<^verbatim>\<open>custom:\<close>.
\<close>

lemma valid_archi_prefix:
  "valid_archi a \<longleftrightarrow>
     prefix ''wsn430:cc1101'' a \<or> prefix ''wsn430:cc2420'' a \<or>
     prefix ''m3:at86rf231'' a \<or> prefix ''a8:at86rf231'' a \<or>
     prefix ''des:wifi-cc1100'' a \<or> prefix ''custom:'' a"
  unfolding valid_archi_def ARCHI_RE_unfolded
  by (simp only: list_ex_Cons_iff list_ex_Nil_iff re_match_literal_only re_match_literal_star simp_thms)

lemma valid_archi_whitelist:
  "a \<in> {''wsn430:cc1101'', ''wsn430:cc2420'', ''m3:at86rf231'', ''a8:at86rf231'',
         ''des:wifi-cc1100''} \<or> prefix ''custom:'' a \<Longrightarrow> valid_archi a"
  unfolding valid_archi_prefix by auto

text \<open>
  C4. The claim: construction succeeds for the exact whitelist strings and for
  \<^verbatim>\<open>custom:\<close> followed by anything, and fails for every other string. The
  first half holds (\<open>valid_archi_whitelist\<close>). The second does not:
  \<^verbatim>\<open>ARCHI_RE.match\<close> anchors at the start only, so a whitelist name followed by
  anything is accepted too. \<^verbatim>\<open>'wsn430:cc1101x'\<close> is not an element of
  \<^verbatim>\<open>ARCHIS\<close> and does not start with \<^verbatim>\<open>custom:\<close>, yet \<^verbatim>\<open>_valid_archi\<close> is true
  of it and the constructor returns an object, where the message of the error
  it would raise reads "not in ARCHIS".
\<close>

theorem valid_archi_accepts_whitelist_prefix:
  "''wsn430:cc1101x'' \<notin> set ARCHIS
   \<and> \<not> prefix ''custom:'' ''wsn430:cc1101x''
   \<and> valid_archi ''wsn430:cc1101x''
   \<and> AliasNodes_init alias_counter_start 1 ''grenoble'' ''wsn430:cc1101x'' False None =
       Inr (\<lparr>alias = ''1'', nbnodes = 1,
             properties = \<lparr>archi = ''wsn430:cc1101x'', site = ''grenoble'', mobile = False\<rparr>\<rparr>, 1)"
proof -
  have v: "valid_archi ''wsn430:cc1101x''"
    unfolding valid_archi_prefix by simp
  have s: "str_int 1 = ''1''"
    by (simp add: str_int_def str_nat.simps)
  show ?thesis
    using v s by (simp add: ARCHIS_def AliasNodes_init_def alias_uid_def alias_counter_start_def)
qed

subsection \<open>Alias ids\<close>

lemma construct_auto:
  "call_alias c = None \<Longrightarrow> construct cnt c = Inr (obj, cnt') \<Longrightarrow>
     alias obj = str_int (cnt + 1) \<and> cnt' = cnt + 1"
  by (auto simp: construct_def AliasNodes_init_def alias_uid_def split: if_splits)

lemma construct_explicit:
  "call_alias c = Some x \<Longrightarrow> construct cnt c = Inr (obj, cnt') \<Longrightarrow>
     alias obj = py_str x \<and> cnt' = cnt"
  by (auto simp: construct_def AliasNodes_init_def alias_uid_def split: if_splits)

lemma upt_0_Suc_shift: "[0..<Suc k] = 0 # map Suc [0..<k]"
  by (simp add: upt_conv_Cons map_Suc_upt del: upt_Suc)

lemma construct_seq_auto:
  "construct_seq cnt cs = (rs, cnt') \<Longrightarrow>
     auto_aliases cs rs = map (\<lambda>i. str_int (cnt + 1 + int i)) [0..<length (auto_aliases cs rs)]
     \<and> cnt' = cnt + int (length (auto_aliases cs rs))"
proof (induction cs arbitrary: cnt rs cnt')
  case Nil
  then show ?case by auto
next
  case (Cons c cs)
  show ?case
  proof (cases "construct cnt c")
    case (Inl e)
    obtain rs0 where r0: "construct_seq cnt cs = (rs0, cnt')" and rs: "rs = Inl e # rs0"
      using Cons.prems Inl by (auto split: prod.splits)
    from Cons.IH [OF r0] show ?thesis by (simp add: rs)
  next
    case (Inr r)
    obtain obj cnt1 where r: "r = (obj, cnt1)" by (cases r)
    obtain rs0 where r0: "construct_seq cnt1 cs = (rs0, cnt')" and rs: "rs = Inr obj # rs0"
      using Cons.prems Inr r by (auto split: prod.splits)
    note ih = Cons.IH [OF r0]
    show ?thesis
    proof (cases "call_alias c")
      case None
      from construct_auto [OF None] Inr r
      have a: "alias obj = str_int (cnt + 1)" and c1: "cnt1 = cnt + 1" by auto
      let ?k = "length (auto_aliases cs rs0)"
      have aa: "auto_aliases (c # cs) rs = alias obj # auto_aliases cs rs0"
        by (simp add: rs None)
      have "map (\<lambda>i. str_int (cnt + 1 + int i)) [0..<Suc ?k] =
            str_int (cnt + 1) # map (\<lambda>i. str_int (cnt1 + 1 + int i)) [0..<?k]"
        unfolding upt_0_Suc_shift by (simp add: o_def c1 algebra_simps)
      with ih a aa show ?thesis by (simp add: c1 del: upt_Suc)
    next
      case (Some x)
      from construct_explicit [OF Some] Inr r have c1: "cnt1 = cnt" by auto
      from ih show ?thesis by (simp add: rs Some c1)
    qed
  qed
qed

lemma upt_1_shift: "map f [1..<Suc k] = map (\<lambda>i. f (Suc i)) [0..<k]"
proof -
  have "[1..<Suc k] = map Suc [0..<k]" by (simp add: map_Suc_upt del: upt_Suc)
  then show ?thesis by (simp add: o_def del: upt_Suc)
qed

text \<open>
  C9. An \<^verbatim>\<open>AliasNodes\<close> built without an explicit alias id gets the string form of
  the counter plus one and leaves the counter one higher; built with an explicit
  id it gets that id as a string and leaves the counter as it was. Over any run
  of constructor calls that starts with the counter at 0, the ids given to the
  calls without an explicit id are "1", "2", ..., in order, whatever explicit ids
  and failing calls come in between.
\<close>

theorem alias_uid_sequential:
  "(AliasNodes_init cnt nb st ar mob None = Inr (obj, cnt') \<longrightarrow>
      alias obj = str_int (cnt + 1) \<and> cnt' = cnt + 1)
   \<and> (AliasNodes_init cnt nb st ar mob (Some x) = Inr (obj, cnt') \<longrightarrow>
      alias obj = py_str x \<and> cnt' = cnt)
   \<and> (construct_seq alias_counter_start cs = (rs, cnt'') \<longrightarrow>
      auto_aliases cs rs = map (\<lambda>i. str_int (int i)) [1..<Suc (length (auto_aliases cs rs))]
      \<and> cnt'' = int (length (auto_aliases cs rs)))"
proof (intro conjI impI)
  assume a: "AliasNodes_init cnt nb st ar mob None = Inr (obj, cnt')"
  then show "alias obj = str_int (cnt + 1)"
    by (auto simp: AliasNodes_init_def alias_uid_def split: if_splits)
  from a show "cnt' = cnt + 1"
    by (auto simp: AliasNodes_init_def alias_uid_def split: if_splits)
next
  assume a: "AliasNodes_init cnt nb st ar mob (Some x) = Inr (obj, cnt')"
  then show "alias obj = py_str x"
    by (auto simp: AliasNodes_init_def alias_uid_def split: if_splits)
  from a show "cnt' = cnt"
    by (auto simp: AliasNodes_init_def alias_uid_def split: if_splits)
next
  assume r: "construct_seq alias_counter_start cs = (rs, cnt'')"
  then have r0: "construct_seq 0 cs = (rs, cnt'')" by (simp add: alias_counter_start_def)
  from construct_seq_auto [OF r0]
  show "auto_aliases cs rs = map (\<lambda>i. str_int (int i)) [1..<Suc (length (auto_aliases cs rs))]"
    unfolding upt_1_shift by (simp add: algebra_simps)
  from construct_seq_auto [OF r0]
  show "cnt'' = int (length (auto_aliases cs rs))"
    by simp
qed

theorem alias_uid_sequential_witness:
  "AliasNodes_init 0 5 ''grenoble'' ''m3:at86rf231'' False None =
     Inr (\<lparr>alias = ''1'', nbnodes = 5,
           properties = \<lparr>archi = ''m3:at86rf231'', site = ''grenoble'', mobile = False\<rparr>\<rparr>, 1)
   \<and> AliasNodes_init 0 5 ''grenoble'' ''m3:at86rf231'' False (Some (AliasInt 7)) =
     Inr (\<lparr>alias = ''7'', nbnodes = 5,
           properties = \<lparr>archi = ''m3:at86rf231'', site = ''grenoble'', mobile = False\<rparr>\<rparr>, 0)
   \<and> construct_seq alias_counter_start
        [\<lparr>call_nbnodes = 5, call_site = ''grenoble'', call_archi = ''m3:at86rf231'',
          call_mobile = False, call_alias = None\<rparr>,
         \<lparr>call_nbnodes = 2, call_site = ''lille'', call_archi = ''a8:at86rf231'',
          call_mobile = False, call_alias = Some (AliasStr ''x'')\<rparr>,
         \<lparr>call_nbnodes = 2, call_site = ''lille'', call_archi = ''wsn430:cc1100'',
          call_mobile = True, call_alias = None\<rparr>,
         \<lparr>call_nbnodes = 1, call_site = ''lille'', call_archi = ''custom:leonardo:'',
          call_mobile = True, call_alias = None\<rparr>] =
       ([Inr \<lparr>alias = ''1'', nbnodes = 5,
              properties = \<lparr>archi = ''m3:at86rf231'', site = ''grenoble'', mobile = False\<rparr>\<rparr>,
         Inr \<lparr>alias = ''x'', nbnodes = 2,
              properties = \<lparr>archi = ''a8:at86rf231'', site = ''lille'', mobile = False\<rparr>\<rparr>,
         Inl (ArchiNotIn ''wsn430:cc1100'' ARCHIS),
         Inr \<lparr>alias = ''2'', nbnodes = 1,
              properties = \<lparr>archi = ''custom:leonardo:'', site = ''lille'', mobile = True\<rparr>\<rparr>], 2)"
proof -
  have v: "valid_archi ''m3:at86rf231''" "valid_archi ''a8:at86rf231''"
    "\<not> valid_archi ''wsn430:cc1100''" "valid_archi ''custom:leonardo:''"
    unfolding valid_archi_prefix by simp_all
  have s: "str_int 1 = ''1''" "str_int 2 = ''2''" "str_int 7 = ''7''"
    by (simp_all add: str_int_def str_nat.simps)
  show ?thesis
    using alias_uid_sequential [of 0 5 "''grenoble''" "''m3:at86rf231''" False
        "\<lparr>alias = ''1'', nbnodes = 5,
          properties = \<lparr>archi = ''m3:at86rf231'', site = ''grenoble'', mobile = False\<rparr>\<rparr>" 1
        "AliasInt 7" "[]" "[]" 0] v s
    by (simp add: AliasNodes_init_def alias_uid_def construct_def alias_counter_start_def)
qed

subsection \<open>The poller\<close>

lemma STOPPED_STATES_eq: "STOPPED_STATES = [''Terminated'', ''Error'']"
  by (simp add: STOPPED_STATES_def)

lemma wait_loop_timeout:
  "timeout (clock (Suc i)) st tmo \<Longrightarrow>
     wait_loop clock state_fct exp_str expected tmo st i = Some (Inl TimeoutReached, i)"
  by (subst wait_loop.simps) simp

lemma wait_loop_continue:
  "\<not> timeout (clock (Suc i)) st tmo \<Longrightarrow> state_fct i = Inr s \<Longrightarrow>
   s \<notin> set expected \<Longrightarrow> s \<notin> set STOPPED_STATES \<Longrightarrow>
     wait_loop clock state_fct exp_str expected tmo st i =
     wait_loop clock state_fct exp_str expected tmo st (Suc i)"
  by (subst wait_loop.simps) simp

lemma wait_loop_stopped:
  "\<not> timeout (clock (Suc i)) st tmo \<Longrightarrow> state_fct i = Inr s \<Longrightarrow>
   s \<notin> set expected \<Longrightarrow> s \<in> set STOPPED_STATES \<Longrightarrow>
     wait_loop clock state_fct exp_str expected tmo st i =
     Some (Inl (AlreadyInState exp_str s), Suc i)"
  by (subst wait_loop.simps) simp

lemma wait_loop_expected:
  "\<not> timeout (clock (Suc i)) st tmo \<Longrightarrow> state_fct i = Inr s \<Longrightarrow> s \<in> set expected \<Longrightarrow>
     wait_loop clock state_fct exp_str expected tmo st i = Some (Inr s, Suc i)"
  by (subst wait_loop.simps) simp

lemma wait_loop_skip:
  "(\<And>i. i < k \<Longrightarrow> \<not> timeout (clock (Suc (n + i))) st tmo \<and>
        (\<exists>s. state_fct (n + i) = Inr s \<and> s \<notin> set expected \<and> s \<notin> set STOPPED_STATES)) \<Longrightarrow>
     wait_loop clock state_fct exp_str expected tmo st n =
     wait_loop clock state_fct exp_str expected tmo st (n + k)"
proof (induction k)
  case 0
  then show ?case by simp
next
  case (Suc k)
  have "wait_loop clock state_fct exp_str expected tmo st n =
        wait_loop clock state_fct exp_str expected tmo st (n + k)"
    using Suc.IH Suc.prems by simp
  also have "\<dots> = wait_loop clock state_fct exp_str expected tmo st (Suc (n + k))"
    using Suc.prems [of k] by (auto intro: wait_loop_continue)
  finally show ?case by simp
qed

text \<open>
  C5, as amended. The check is \<^verbatim>\<open>time.time() > start_time + timeout\<close>: strict, made
  at the top of each iteration. With a timeout of 0 and a \<^verbatim>\<open>state_fct\<close> that always
  returns a state that is neither expected nor stopped, \<^verbatim>\<open>wait_state\<close> raises the
  timeout at the first check whose reading of the clock is later than the reading taken
  at loop entry, after one call of \<^verbatim>\<open>state_fct\<close> for each check before it (\<open>k\<close> of
  them): none when the clock has moved by the first check, one when the first check reads
  the instant of loop entry and the second reads later.
\<close>

theorem wait_state_zero_timeout:
  assumes "states_from_str check states = Inr expected"
    and "\<forall>i. \<exists>s. state_fct i = Inr s \<and> s \<notin> set expected \<and> s \<notin> set STOPPED_STATES"
    and "\<forall>i<k. clock (Suc i) \<le> clock 0"
    and "clock 0 < clock (Suc k)"
  shows "wait_state check clock state_fct exp_str states (Fin 0) = Some (Inl TimeoutReached, k)"
proof -
  have "wait_loop clock state_fct exp_str expected (Fin 0) (clock 0) 0 =
        wait_loop clock state_fct exp_str expected (Fin 0) (clock 0) (0 + k)"
    using assms(2,3) by (intro wait_loop_skip) (auto simp: timeout_def not_less)
  also have "\<dots> = Some (Inl TimeoutReached, k)"
    using assms(4) by (simp add: wait_loop_timeout timeout_def)
  finally show ?thesis using assms(1) by (simp add: wait_state_def)
qed

theorem wait_state_zero_timeout_witness:
  "wait_state accept_states coarse_clock always_waiting ''123'' ''Running'' (Fin 0) =
     Some (Inl TimeoutReached, 1)"
proof -
  have a: "states_from_str accept_states ''Running'' = Inr [''Running'']"
    by (simp add: states_from_str_def accept_states_def)
  have b: "\<forall>i. \<exists>s. always_waiting i = Inr s \<and> s \<notin> set [''Running''] \<and> s \<notin> set STOPPED_STATES"
    by (simp add: always_waiting_def STOPPED_STATES_eq)
  have c: "\<forall>i<1. coarse_clock (Suc i) \<le> coarse_clock 0"
    by (simp add: coarse_clock_def)
  have d: "coarse_clock 0 < coarse_clock (Suc 1)"
    by (simp add: coarse_clock_def)
  show ?thesis
    using wait_state_zero_timeout [OF a b c d] by simp
qed

text \<open>
  C5, as stated, fails: the check is not inclusive. When the first check reads the same
  instant as loop entry, the elapsed time equals the timeout of 0 and the check is
  false; \<^verbatim>\<open>state_fct\<close> is called, and the timeout is raised by the second check.
\<close>

theorem wait_state_zero_timeout_not_first_check:
  "\<not> timeout (coarse_clock 1) (coarse_clock 0) (Fin 0)
   \<and> wait_state accept_states coarse_clock always_waiting ''123'' ''Running'' (Fin 0) \<noteq>
       Some (Inl TimeoutReached, 0)
   \<and> wait_state accept_states coarse_clock always_waiting ''123'' ''Running'' (Fin 0) =
       Some (Inl TimeoutReached, 1)"
proof -
  have a: "states_from_str accept_states ''Running'' = Inr [''Running'']"
    by (simp add: states_from_str_def accept_states_def)
  have t1: "\<not> timeout (coarse_clock (Suc 0)) (coarse_clock 0) (Fin 0)"
    by (simp add: timeout_def coarse_clock_def)
  have t2: "timeout (coarse_clock (Suc (Suc 0))) (coarse_clock 0) (Fin 0)"
    by (simp add: timeout_def coarse_clock_def)
  have "wait_loop coarse_clock always_waiting ''123'' [''Running''] (Fin 0) (coarse_clock 0) 0 =
        wait_loop coarse_clock always_waiting ''123'' [''Running''] (Fin 0) (coarse_clock 0) (Suc 0)"
    by (rule wait_loop_continue [where s = "''Waiting''"])
       (simp_all add: t1 always_waiting_def STOPPED_STATES_eq)
  also have "\<dots> = Some (Inl TimeoutReached, Suc 0)"
    by (rule wait_loop_timeout) (rule t2)
  finally show ?thesis using a t1 by (simp add: wait_state_def)
qed

text \<open>
  C6. If no check up to the one before call \<open>k\<close> times out, no earlier call returned an
  expected state, and call \<open>k\<close> returns Terminated or Error, not expected, then
  \<^verbatim>\<open>wait_state\<close> raises "already in state" with a stopped state it observed: the first
  one, returned by some call \<open>j \<le> k\<close>, and \<open>j + 1\<close> calls were made (so \<open>j = k\<close> when
  no earlier call returned a stopped state). And an iteration whose state is neither
  expected nor stopped does not leave the loop: it goes on with the next check.
\<close>

theorem wait_state_already_terminal:
  "(states_from_str check states = Inr expected
     \<and> (\<forall>i\<le>k. \<not> timeout (clock (Suc i)) (clock 0) tmo)
     \<and> (\<forall>i\<le>k. \<exists>s. state_fct i = Inr s)
     \<and> (\<forall>i<k. \<forall>s. state_fct i = Inr s \<longrightarrow> s \<notin> set expected)
     \<and> state_fct k = Inr final \<and> final \<in> {''Terminated'', ''Error''} \<and> final \<notin> set expected
    \<longrightarrow> (\<exists>j\<le>k. \<exists>s. state_fct j = Inr s \<and> s \<in> {''Terminated'', ''Error''}
           \<and> (\<forall>i<j. \<forall>s'. state_fct i = Inr s' \<longrightarrow> s' \<notin> {''Terminated'', ''Error''})
           \<and> wait_state check clock state_fct exp_str states tmo =
               Some (Inl (AlreadyInState exp_str s), Suc j)))
   \<and> (\<not> timeout (clock (Suc n)) st tmo \<and> state_fct n = Inr s0
       \<and> s0 \<notin> set xs \<and> s0 \<notin> {''Terminated'', ''Error''}
    \<longrightarrow> wait_loop clock state_fct exp_str xs tmo st n =
        wait_loop clock state_fct exp_str xs tmo st (Suc n))"
proof (intro conjI impI)
  assume h: "states_from_str check states = Inr expected
     \<and> (\<forall>i\<le>k. \<not> timeout (clock (Suc i)) (clock 0) tmo)
     \<and> (\<forall>i\<le>k. \<exists>s. state_fct i = Inr s)
     \<and> (\<forall>i<k. \<forall>s. state_fct i = Inr s \<longrightarrow> s \<notin> set expected)
     \<and> state_fct k = Inr final \<and> final \<in> {''Terminated'', ''Error''} \<and> final \<notin> set expected"
  define stopped where "stopped i \<longleftrightarrow> (\<exists>s. state_fct i = Inr s \<and> s \<in> set STOPPED_STATES)" for i
  have "stopped k" using h by (auto simp: stopped_def STOPPED_STATES_eq)
  define j where "j = (LEAST i. stopped i)"
  have sj: "stopped j" unfolding j_def using \<open>stopped k\<close> by (rule LeastI)
  have jk: "j \<le> k" unfolding j_def using \<open>stopped k\<close> by (rule Least_le)
  have before: "\<not> stopped i" if "i < j" for i
    using that not_less_Least unfolding j_def by blast
  from sj obtain s where s: "state_fct j = Inr s" "s \<in> set STOPPED_STATES"
    by (auto simp: stopped_def)
  have s_not_expected: "s \<notin> set expected"
  proof (cases "j = k")
    case True
    then show ?thesis using h s by auto
  next
    case False
    then have "j < k" using jk by simp
    then show ?thesis using h s by auto
  qed
  have skip: "wait_loop clock state_fct exp_str expected tmo (clock 0) 0 =
              wait_loop clock state_fct exp_str expected tmo (clock 0) (0 + j)"
  proof (rule wait_loop_skip)
    fix i assume ij: "i < j"
    then have ik: "i < k" using jk by simp
    from h ik obtain s' where s': "state_fct i = Inr s'" by (meson less_imp_le)
    have "s' \<notin> set expected" using h ik s' by blast
    moreover have "s' \<notin> set STOPPED_STATES" using before [OF ij] s' by (simp add: stopped_def)
    moreover have "\<not> timeout (clock (Suc i)) (clock 0) tmo" using h ik by (simp add: less_imp_le)
    ultimately show "\<not> timeout (clock (Suc (0 + i))) (clock 0) tmo \<and>
        (\<exists>s. state_fct (0 + i) = Inr s \<and> s \<notin> set expected \<and> s \<notin> set STOPPED_STATES)"
      using s' by simp
  qed
  have "\<not> timeout (clock (Suc j)) (clock 0) tmo" using h jk by simp
  then have "wait_loop clock state_fct exp_str expected tmo (clock 0) j =
             Some (Inl (AlreadyInState exp_str s), Suc j)"
    using s s_not_expected by (intro wait_loop_stopped)
  with skip have "wait_state check clock state_fct exp_str states tmo =
               Some (Inl (AlreadyInState exp_str s), Suc j)"
    using h by (simp add: wait_state_def)
  moreover have "\<forall>i<j. \<forall>s'. state_fct i = Inr s' \<longrightarrow> s' \<notin> {''Terminated'', ''Error''}"
    using before by (auto simp: stopped_def STOPPED_STATES_eq)
  ultimately show "\<exists>j\<le>k. \<exists>s. state_fct j = Inr s \<and> s \<in> {''Terminated'', ''Error''}
           \<and> (\<forall>i<j. \<forall>s'. state_fct i = Inr s' \<longrightarrow> s' \<notin> {''Terminated'', ''Error''})
           \<and> wait_state check clock state_fct exp_str states tmo =
               Some (Inl (AlreadyInState exp_str s), Suc j)"
    using jk s by (auto simp: STOPPED_STATES_eq)
next
  assume "\<not> timeout (clock (Suc n)) st tmo \<and> state_fct n = Inr s0
       \<and> s0 \<notin> set xs \<and> s0 \<notin> {''Terminated'', ''Error''}"
  then show "wait_loop clock state_fct exp_str xs tmo st n =
        wait_loop clock state_fct exp_str xs tmo st (Suc n)"
    by (intro wait_loop_continue) (auto simp: STOPPED_STATES_eq)
qed


theorem wait_state_already_terminal_witness:
  "wait_state accept_states coarse_clock waiting_then_error ''123'' ''Running'' PosInf =
     Some (Inl (AlreadyInState ''123'' ''Error''), 3)
   \<and> wait_loop coarse_clock waiting_then_error ''123'' [''Running''] PosInf 0 0 =
       wait_loop coarse_clock waiting_then_error ''123'' [''Running''] PosInf 0 1"
proof -
  note t = wait_state_already_terminal [where check = accept_states and states = "''Running''"
      and expected = "[''Running'']" and k = 2 and clock = coarse_clock and tmo = PosInf
      and state_fct = waiting_then_error and final = "''Error''" and exp_str = "''123''"
      and n = 0 and st = 0 and ?s0.0 = "''Waiting''" and xs = "[''Running'']"]
  have a: "states_from_str accept_states ''Running'' = Inr [''Running'']"
    by (simp add: states_from_str_def accept_states_def)
  from t a have "\<exists>j\<le>2. \<exists>s. waiting_then_error j = Inr s \<and> s \<in> {''Terminated'', ''Error''}
       \<and> (\<forall>i<j. \<forall>s'. waiting_then_error i = Inr s' \<longrightarrow> s' \<notin> {''Terminated'', ''Error''})
       \<and> wait_state accept_states coarse_clock waiting_then_error ''123'' ''Running'' PosInf =
           Some (Inl (AlreadyInState ''123'' s), Suc j)"
    by (simp add: timeout_def waiting_then_error_def)
  then obtain j s where j: "j \<le> 2" "waiting_then_error j = Inr s"
      "s \<in> {''Terminated'', ''Error''}"
      "wait_state accept_states coarse_clock waiting_then_error ''123'' ''Running'' PosInf =
           Some (Inl (AlreadyInState ''123'' s), Suc j)"
    by blast
  have "\<not> j < 2" using j(2,3) by (auto simp: waiting_then_error_def)
  with j(1) have j2: "j = 2" by simp
  with j(2) have "s = ''Error''" by (simp add: waiting_then_error_def)
  with j(4) j2 have first: "wait_state accept_states coarse_clock waiting_then_error ''123'' ''Running'' PosInf =
     Some (Inl (AlreadyInState ''123'' ''Error''), 3)" by simp
  from t have "wait_loop coarse_clock waiting_then_error ''123'' [''Running''] PosInf 0 0 =
       wait_loop coarse_clock waiting_then_error ''123'' [''Running''] PosInf 0 1"
    by (simp add: timeout_def waiting_then_error_def)
  with first show ?thesis by simp
qed

subsection \<open>The blocks of \<^verbatim>\<open>add_exp_resources\<close> with the modelled map\<close>

lemma add_firmware_eq:
  "add_firmware sk e fw nds =
     (case fw of
        None \<Rightarrow> Inr e
      | Some f \<Rightarrow>
          (case extendvalues sk (get_firmwareassociations e)
                  (nodes_association_name ''firmware'' f) nds of
             Inl err \<Rightarrow> Inl err
           | Inr m \<Rightarrow> Inr (e\<lparr>firmwareassociations := Some m\<rparr>)))"
  by (simp add: add_firmware_def add_firmware_with_def)

lemma add_profile_eq:
  "add_profile sk e pr nds =
     (case pr of
        None \<Rightarrow> Inr e
      | Some p \<Rightarrow>
          (case extendvalues sk (get_profileassociations e)
                  (nodes_association_name ''profile'' p) nds of
             Inl err \<Rightarrow> Inl err
           | Inr m \<Rightarrow> Inr (e\<lparr>profileassociations := Some m\<rparr>)))"
  by (simp add: add_profile_def add_profile_with_def)

lemma add_nodes_association_eq:
  "add_nodes_association sk e nds atype assocname =
     (case extendvalues sk (get_associations e atype)
             (nodes_association_name atype assocname) nds of
        Inl err \<Rightarrow> Inl err
      | Inr m \<Rightarrow> Inr (set_association e atype m))"
  by (simp add: add_nodes_association_def add_nodes_association_with_def)

subsection \<open>The addressing mode\<close>

lemma set_type_Inr:
  "set_type e t = Inr e' \<longleftrightarrow> (type e = JNull \<or> type e = JStr t) \<and> e' = e\<lparr>type := JStr t\<rparr>"
  by (auto simp: set_type_def)

lemma set_type_Inl:
  "set_type e t = Inl x \<longleftrightarrow> x = ModeConflict \<and> type e \<noteq> JNull \<and> type e \<noteq> JStr t"
  by (auto simp: set_type_def)

lemma filter_mem_empty: "filter (\<lambda>n. n \<in> set l) (remdups cur) = [] \<longleftrightarrow> set cur \<inter> set l = {}"
  by (auto simp: filter_empty_conv)

lemma set_physical_nodes_conflict:
  "type e = JStr t \<Longrightarrow> t \<noteq> ''physical'' \<Longrightarrow> set_physical_nodes sk e l = Inl ModeConflict"
  by (simp add: set_physical_nodes_def set_type_def)

lemma set_physical_nodes_eq:
  "type e = JNull \<or> type e = JStr ''physical'' \<Longrightarrow> addresses (nodes e) = Some cur \<Longrightarrow>
     set_physical_nodes sk e l =
       (if set cur \<inter> set l \<noteq> {}
          then Inl (NodesSpecifiedMultipleTimes (filter (\<lambda>n. n \<in> set l) (remdups cur)))
        else Inr (e\<lparr>type := JStr ''physical'',
                    nodes := map Address (sort_key sk (remdups (cur @ l)))\<rparr>))"
  by (auto simp: set_physical_nodes_def set_type_def Let_def filter_mem_empty)

lemma set_physical_nodes_Inr:
  "set_physical_nodes sk e l = Inr e' \<Longrightarrow>
     (type e = JNull \<or> type e = JStr ''physical'') \<and>
     (\<exists>cur. addresses (nodes e) = Some cur \<and> set cur \<inter> set l = {} \<and>
        e' = e\<lparr>type := JStr ''physical'',
               nodes := map Address (sort_key sk (remdups (cur @ l)))\<rparr>)"
  by (auto simp: set_physical_nodes_def set_type_def Let_def filter_mem_empty
           split: if_splits option.splits)

lemma set_physical_nodes_not_mode:
  "type e = JNull \<or> type e = JStr ''physical'' \<Longrightarrow> set_physical_nodes sk e l \<noteq> Inl ModeConflict"
  by (auto simp: set_physical_nodes_def set_type_def Let_def split: option.splits)

lemma set_alias_nodes_conflict:
  "type e = JStr t \<Longrightarrow> t \<noteq> ''alias'' \<Longrightarrow> set_alias_nodes e a = Inl ModeConflict"
  by (simp add: set_alias_nodes_def set_type_def)

lemma set_alias_nodes_ok:
  "type e = JNull \<or> type e = JStr ''alias'' \<Longrightarrow>
     set_alias_nodes e a =
       Inr (e\<lparr>type := JStr ''alias'',
              nodes := nodes e @ [case a of AliasGroup g \<Rightarrow> Alias g | NodeList l \<Rightarrow> Nested l]\<rparr>)"
  by (auto simp: set_alias_nodes_def set_type_def)

lemma register_nodes_not_mode:
  "type e = JStr t \<Longrightarrow> register_nodes sk e n \<noteq> Inl ModeConflict"
  by (auto simp: register_nodes_def set_physical_nodes_not_mode set_alias_nodes_ok
           split: nodes_arg.splits)

lemma register_nodes_type:
  "type e = JStr t \<Longrightarrow> register_nodes sk e n = Inr e' \<Longrightarrow> type e' = JStr t"
  by (auto simp: register_nodes_def set_alias_nodes_ok dest!: set_physical_nodes_Inr
           split: nodes_arg.splits if_splits)

lemma extendvalues_error:
  "extendvalues sk m v n = Inl x \<Longrightarrow> \<exists>a b. x = ConflictError a b"
  by (auto simp: extendvalues_def Let_def split: if_splits)

lemma add_firmware_error:
  "add_firmware sk e fw n = Inl x \<Longrightarrow> \<exists>a b. x = ConflictError a b"
  by (auto simp: add_firmware_eq split: option.splits sum.splits dest: extendvalues_error)

lemma add_profile_error:
  "add_profile sk e pr n = Inl x \<Longrightarrow> \<exists>a b. x = ConflictError a b"
  by (auto simp: add_profile_eq split: option.splits sum.splits dest: extendvalues_error)

lemma add_nodes_association_error:
  "add_nodes_association sk e n t v = Inl x \<Longrightarrow> \<exists>a b. x = ConflictError a b"
  by (auto simp: add_nodes_association_eq split: sum.splits dest: extendvalues_error)

lemma add_associations_error:
  "add_associations sk e n as = Inl x \<Longrightarrow> \<exists>a b. x = ConflictError a b"
proof (induction as arbitrary: e)
  case Nil
  then show ?case by simp
next
  case (Cons p as)
  obtain t v where p: "p = (t, v)" by (cases p)
  show ?case
  proof (cases "add_nodes_association sk e n t v")
    case (Inl y)
    with Cons.prems p have "x = y" by simp
    with Inl show ?thesis by (auto dest: add_nodes_association_error)
  next
    case (Inr e')
    with Cons.prems p have "add_associations sk e' n as = Inl x" by simp
    then show ?thesis by (rule Cons.IH)
  qed
qed

lemma add_firmware_type: "add_firmware sk e fw n = Inr e' \<Longrightarrow> type e' = type e \<and> nodes e' = nodes e"
  by (auto simp: add_firmware_eq split: option.splits sum.splits)

lemma add_profile_type: "add_profile sk e pr n = Inr e' \<Longrightarrow> type e' = type e \<and> nodes e' = nodes e"
  by (auto simp: add_profile_eq split: option.splits sum.splits)

lemma add_nodes_association_type:
  "add_nodes_association sk e n t v = Inr e' \<Longrightarrow> type e' = type e \<and> nodes e' = nodes e"
  by (auto simp: add_nodes_association_eq set_association_def split: sum.splits)

lemma add_associations_type:
  "add_associations sk e n as = Inr e' \<Longrightarrow> type e' = type e \<and> nodes e' = nodes e"
proof (induction as arbitrary: e)
  case Nil
  then show ?case by simp
next
  case (Cons p as)
  obtain t v where p: "p = (t, v)" by (cases p)
  from Cons.prems p obtain e1 where
    e1: "add_nodes_association sk e n t v = Inr e1" and rest: "add_associations sk e1 n as = Inr e'"
    by (auto split: sum.splits)
  from Cons.IH [OF rest] add_nodes_association_type [OF e1] show ?case by simp
qed

text \<open>The steps of \<^verbatim>\<open>add_exp_resources\<close> that succeeded, one after the other.\<close>

lemma add_exp_resources_Inr:
  "add_exp_resources sk e r = Inr e' \<Longrightarrow>
     \<exists>e1 e2 nds e3 e4.
       set_type e (res_type r) = Inr e1 \<and>
       register_nodes sk e1 (res_nodes r) = Inr e2 \<and>
       nodes_to_assoc e2 (res_nodes r) = Inr nds \<and>
       add_firmware sk e2 (res_firmware r) nds = Inr e3 \<and>
       add_profile sk e3 (res_profile r) nds = Inr e4 \<and>
       add_associations sk e4 nds (res_associations r) = Inr e'"
  by (auto simp: add_exp_resources_def split: sum.splits)

lemma add_exp_resources_type:
  assumes "add_exp_resources sk e r = Inr e'"
  shows "type e' = JStr (res_type r) \<and> (type e = JNull \<or> type e = JStr (res_type r))"
proof -
  from add_exp_resources_Inr [OF assms] obtain e1 e2 nds e3 e4 where
    s: "set_type e (res_type r) = Inr e1"
       "register_nodes sk e1 (res_nodes r) = Inr e2"
       "add_firmware sk e2 (res_firmware r) nds = Inr e3"
       "add_profile sk e3 (res_profile r) nds = Inr e4"
       "add_associations sk e4 nds (res_associations r) = Inr e'"
    by blast
  from s(1) have t1: "type e1 = JStr (res_type r)" and t0: "type e = JNull \<or> type e = JStr (res_type r)"
    by (auto simp: set_type_Inr)
  from register_nodes_type [OF t1 s(2)] have "type e2 = JStr (res_type r)" .
  with add_firmware_type [OF s(3)] add_profile_type [OF s(4)] add_associations_type [OF s(5)] t0
  show ?thesis by simp
qed

lemma add_exp_resources_conflict:
  "type e = JStr t \<Longrightarrow> res_type r \<noteq> t \<Longrightarrow> add_exp_resources sk e r = Inl ModeConflict"
  by (simp add: add_exp_resources_def set_type_def)

lemma add_exp_resources_not_mode:
  assumes "type e = JNull \<or> type e = JStr (res_type r)"
  shows "add_exp_resources sk e r \<noteq> Inl ModeConflict"
proof
  assume bad: "add_exp_resources sk e r = Inl ModeConflict"
  from assms have s: "set_type e (res_type r) = Inr (e\<lparr>type := JStr (res_type r)\<rparr>)"
    by (auto simp: set_type_def)
  let ?e1 = "e\<lparr>type := JStr (res_type r)\<rparr>"
  have t1: "type ?e1 = JStr (res_type r)" by simp
  show False
  proof (cases "register_nodes sk ?e1 (res_nodes r)")
    case (Inl x)
    with bad s have "x = ModeConflict" by (simp add: add_exp_resources_def)
    with Inl register_nodes_not_mode [OF t1] show False by blast
  next
    case e2: (Inr e2)
    show False
    proof (cases "nodes_to_assoc e2 (res_nodes r)")
      case (Inl x)
      with bad s e2 have "x = ModeConflict" by (simp add: add_exp_resources_def)
      with Inl show False
        by (auto simp: nodes_to_assoc_def split: if_splits nodes_arg.splits)
    next
      case nds: (Inr nds)
      show False
      proof (cases "add_firmware sk e2 (res_firmware r) nds")
        case (Inl x)
        with bad s e2 nds have "x = ModeConflict" by (simp add: add_exp_resources_def)
        with Inl show False by (auto dest: add_firmware_error)
      next
        case e3: (Inr e3)
        show False
        proof (cases "add_profile sk e3 (res_profile r) nds")
          case (Inl x)
          with bad s e2 nds e3 have "x = ModeConflict" by (simp add: add_exp_resources_def)
          with Inl show False by (auto dest: add_profile_error)
        next
          case e4: (Inr e4)
          with bad s e2 nds e3 have "add_associations sk e4 nds (res_associations r) = Inl ModeConflict"
            by (simp add: add_exp_resources_def)
          then show False by (auto dest: add_associations_error)
        qed
      qed
    qed
  qed
qed

lemma add_all_type:
  "type e0 = JStr t \<Longrightarrow> add_all sk e0 rs = Inr e \<Longrightarrow>
     type e = JStr t \<and> (\<forall>r\<in>set rs. res_type r = t)"
proof (induction rs arbitrary: e0)
  case Nil
  then show ?case by simp
next
  case (Cons r rs)
  from Cons.prems(2) obtain e1 where
    e1: "add_exp_resources sk e0 r = Inr e1" and rest: "add_all sk e1 rs = Inr e"
    by (auto split: sum.splits)
  from add_exp_resources_type [OF e1] Cons.prems(1)
  have "type e1 = JStr t" "res_type r = t" by auto
  with Cons.IH [OF _ rest] show ?case by simp
qed

lemma add_all_first_type:
  assumes "add_all sk (Experiment_init nm dur st) (r # rs) = Inr e"
  shows "type e = JStr (res_type r) \<and> (\<forall>r'\<in>set rs. res_type r' = res_type r)"
proof -
  from assms obtain e1 where
    e1: "add_exp_resources sk (Experiment_init nm dur st) r = Inr e1" and rest: "add_all sk e1 rs = Inr e"
    by (auto split: sum.splits)
  from add_exp_resources_type [OF e1] have "type e1 = JStr (res_type r)" by simp
  from add_all_type [OF this rest] show ?thesis by simp
qed

text \<open>
  C2. The addressing mode is fixed by the first resource group: an experiment built from
  the groups \<open>r # rs\<close> has the type of \<open>r\<close>, and every later group has that type
  too; after any successful \<^verbatim>\<open>add_exp_resources\<close> the type is the group's. Once the type
  is set, \<^verbatim>\<open>add_exp_resources\<close> with a group of another type,
  \<^verbatim>\<open>set_physical_nodes\<close> on a type other than physical and \<^verbatim>\<open>set_alias_nodes\<close> on a
  type other than alias raise the mode conflict; with the same type, none of them raises it.
\<close>

theorem addressing_mode_fixed:
  "(add_all sk (Experiment_init nm dur st) (r # rs) = Inr e \<longrightarrow>
      type e = JStr (res_type r) \<and> (\<forall>r'\<in>set rs. res_type r' = res_type r))
   \<and> (add_exp_resources sk e0 r0 = Inr e1 \<longrightarrow> type e1 = JStr (res_type r0))
   \<and> (type e0 = JStr t \<and> res_type r0 \<noteq> t \<longrightarrow> add_exp_resources sk e0 r0 = Inl ModeConflict)
   \<and> (type e0 = JStr t \<and> t \<noteq> ''physical'' \<longrightarrow> set_physical_nodes sk e0 l = Inl ModeConflict)
   \<and> (type e0 = JStr t \<and> t \<noteq> ''alias'' \<longrightarrow> set_alias_nodes e0 a = Inl ModeConflict)
   \<and> (type e0 = JStr (res_type r0) \<longrightarrow> add_exp_resources sk e0 r0 \<noteq> Inl ModeConflict)
   \<and> (type e0 = JStr ''physical'' \<longrightarrow> set_physical_nodes sk e0 l \<noteq> Inl ModeConflict)
   \<and> (type e0 = JStr ''alias'' \<longrightarrow> set_alias_nodes e0 a \<noteq> Inl ModeConflict)"
proof (intro conjI impI)
  assume "add_all sk (Experiment_init nm dur st) (r # rs) = Inr e"
  from add_all_first_type [OF this]
  show "type e = JStr (res_type r)" and "\<forall>r'\<in>set rs. res_type r' = res_type r"
    by simp_all
next
  assume "add_exp_resources sk e0 r0 = Inr e1"
  from add_exp_resources_type [OF this] show "type e1 = JStr (res_type r0)" by simp
next
  assume "type e0 = JStr t \<and> res_type r0 \<noteq> t"
  then show "add_exp_resources sk e0 r0 = Inl ModeConflict"
    by (simp add: add_exp_resources_conflict)
next
  assume "type e0 = JStr t \<and> t \<noteq> ''physical''"
  then show "set_physical_nodes sk e0 l = Inl ModeConflict"
    by (simp add: set_physical_nodes_conflict)
next
  assume "type e0 = JStr t \<and> t \<noteq> ''alias''"
  then show "set_alias_nodes e0 a = Inl ModeConflict"
    by (simp add: set_alias_nodes_conflict)
next
  assume "type e0 = JStr (res_type r0)"
  then show "add_exp_resources sk e0 r0 \<noteq> Inl ModeConflict"
    by (simp add: add_exp_resources_not_mode)
next
  assume "type e0 = JStr ''physical''"
  then show "set_physical_nodes sk e0 l \<noteq> Inl ModeConflict"
    by (simp add: set_physical_nodes_not_mode)
next
  assume "type e0 = JStr ''alias''"
  then show "set_alias_nodes e0 a \<noteq> Inl ModeConflict"
    by (simp add: set_alias_nodes_ok)
qed

subsection \<open>The examples, evaluated\<close>

lemma basename_examples:
  "basename ''dir/b.elf'' = ''b.elf''" "basename ''b.elf'' = ''b.elf''"
  "basename ''a.elf'' = ''a.elf''"
  "basename ''fw/c.elf'' = ''c.elf''" "basename ''c.elf'' = ''c.elf''"
  by (simp_all add: basename_def)

lemma nodes_association_name_examples:
  "nodes_association_name ''firmware'' v = basename v"
  "nodes_association_name ''profile'' v = v"
  "nodes_association_name ''mobility'' v = v"
  by (simp_all add: nodes_association_name_def basename_if_in_def NODES_ASSOCIATIONS_FILE_ASSOCS_def)

lemmas builder_defs =
  exp_resources_def Experiment_init_def
  add_exp_resources_def set_type_def register_nodes_def set_physical_nodes_def
  set_alias_nodes_def nodes_to_assoc_def add_firmware_eq add_profile_eq
  add_nodes_association_eq get_firmwareassociations_def get_profileassociations_def
  get_associations_def set_association_def AssociationsMap_init_def extendvalues_def keys_def
  nodes_association_name_examples basename_examples

lemma physical_built1_eq:
  "add_exp_resources length new_example physical_group1 = Inr physical_built1"
  by (simp add: new_example_def physical_group1_def physical_built1_def builder_defs)

lemma physical_built_eq:
  "add_exp_resources length physical_built1 physical_group2 = Inr physical_built"
  by (simp add: physical_group2_def physical_built1_def physical_built_def builder_defs)

lemma alias_built_eq:
  "add_exp_resources length new_example alias_group1 = Inr alias_built"
  by (simp add: new_example_def alias_group1_def alias_built_def alias_example_def builder_defs)

lemma physical_add_all_eq:
  "add_all length new_example [physical_group1, physical_group2] = Inr physical_built"
  by (simp add: physical_built1_eq physical_built_eq)

subsection \<open>Physical nodes\<close>

lemma sort_key_remdups_props:
  "distinct (sort_key sk (remdups xs)) \<and> sorted (map sk (sort_key sk (remdups xs)))
   \<and> set (sort_key sk (remdups xs)) = set xs"
  by simp

text \<open>
  C3. In a physical experiment whose registered nodes are the addresses \<open>cur\<close>: when
  the node list \<open>l\<close> of a new group has an address in common with \<open>cur\<close>,
  \<^verbatim>\<open>set_physical_nodes\<close>, and with it \<^verbatim>\<open>add_exp_resources\<close> for a physical group with
  these nodes, raises "Nodes specified multiple times" with a list that holds exactly the
  common addresses, each once (Python leaves the order of that list open); when there is
  none, the registration of the nodes succeeds.
\<close>

theorem physical_nodes_duplicates:
  assumes "type e = JStr ''physical''" and "addresses (nodes e) = Some cur"
  shows "(set cur \<inter> set l \<noteq> {} \<longrightarrow>
            (\<exists>xs. set_physical_nodes sk e l = Inl (NodesSpecifiedMultipleTimes xs)
                \<and> set xs = set cur \<inter> set l \<and> distinct xs
                \<and> (res_type r = ''physical'' \<and> res_nodes r = NodeList l \<longrightarrow>
                     add_exp_resources sk e r = Inl (NodesSpecifiedMultipleTimes xs))))
       \<and> (set cur \<inter> set l = {} \<longrightarrow> (\<exists>e'. set_physical_nodes sk e l = Inr e'))"
proof (intro conjI impI)
  assume ne: "set cur \<inter> set l \<noteq> {}"
  let ?xs = "filter (\<lambda>n. n \<in> set l) (remdups cur)"
  have sp: "set_physical_nodes sk e l = Inl (NodesSpecifiedMultipleTimes ?xs)"
    using assms ne by (simp add: set_physical_nodes_eq)
  have "res_type r = ''physical'' \<and> res_nodes r = NodeList l \<longrightarrow>
          add_exp_resources sk e r = Inl (NodesSpecifiedMultipleTimes ?xs)"
  proof
    assume r: "res_type r = ''physical'' \<and> res_nodes r = NodeList l"
    have eq: "e\<lparr>type := JStr ''physical''\<rparr> = e" using assms(1) by simp
    show "add_exp_resources sk e r = Inl (NodesSpecifiedMultipleTimes ?xs)"
      using r assms(1) by (simp add: add_exp_resources_def set_type_def register_nodes_def eq sp)
  qed
  moreover have "set ?xs = set cur \<inter> set l" by auto
  moreover have "distinct ?xs" by simp
  ultimately show "\<exists>xs. set_physical_nodes sk e l = Inl (NodesSpecifiedMultipleTimes xs)
                \<and> set xs = set cur \<inter> set l \<and> distinct xs
                \<and> (res_type r = ''physical'' \<and> res_nodes r = NodeList l \<longrightarrow>
                     add_exp_resources sk e r = Inl (NodesSpecifiedMultipleTimes xs))"
    using sp by blast
next
  assume "set cur \<inter> set l = {}"
  then show "\<exists>e'. set_physical_nodes sk e l = Inr e'"
    using assms by (simp add: set_physical_nodes_eq)
qed

theorem physical_nodes_duplicates_witness:
  "set_physical_nodes length physical_built1 [''ccc'', ''a'', ''ccc''] =
     Inl (NodesSpecifiedMultipleTimes [''a''])
   \<and> add_exp_resources length physical_built1
        (exp_resources (NodeList [''ccc'', ''a'', ''ccc'']) None None []) =
     Inl (NodesSpecifiedMultipleTimes [''a''])
   \<and> set_physical_nodes length physical_built1 [''ccc'', ''ccc''] =
     Inr (physical_built1\<lparr>nodes := [Address ''a'', Address ''bb'', Address ''ccc'']\<rparr>)"
proof -
  have t: "type physical_built1 = JStr ''physical''"
    and a: "addresses (nodes physical_built1) = Some [''a'', ''bb'']"
    by (simp_all add: physical_built1_def)
  note w1 = physical_nodes_duplicates [OF t a, of "[''ccc'', ''a'', ''ccc'']" length
      "exp_resources (NodeList [''ccc'', ''a'', ''ccc'']) None None []"]
  note w2 = physical_nodes_duplicates [OF t a, of "[''ccc'', ''ccc'']" length]
  have ev1: "set_physical_nodes length physical_built1 [''ccc'', ''a'', ''ccc''] =
     Inl (NodesSpecifiedMultipleTimes [''a''])"
    by (simp add: physical_built1_def set_physical_nodes_def set_type_def)
  have ev2: "set_physical_nodes length physical_built1 [''ccc'', ''ccc''] =
     Inr (physical_built1\<lparr>nodes := [Address ''a'', Address ''bb'', Address ''ccc'']\<rparr>)"
    by (simp add: physical_built1_def set_physical_nodes_def set_type_def)
  from w1 ev1 have "add_exp_resources length physical_built1
        (exp_resources (NodeList [''ccc'', ''a'', ''ccc'']) None None []) =
     Inl (NodesSpecifiedMultipleTimes [''a''])"
    by (simp add: exp_resources_def)
  with w2 ev1 ev2 show ?thesis by simp
qed

text \<open>
  C10. After a successful \<^verbatim>\<open>set_physical_nodes\<close> the node list holds addresses only,
  each once, sorted by the key, and they are the addresses registered before together with
  those of the new list: an address that occurs twice in the new list is kept once and
  raises nothing. On an experiment with no type yet or of type physical, the call succeeds
  exactly when the new list shares no address with the nodes registered before.
\<close>

theorem set_physical_nodes_sorted_distinct:
  "(set_physical_nodes sk e l = Inr e' \<longrightarrow>
      (\<exists>cur ads. addresses (nodes e) = Some cur \<and> nodes e' = map Address ads
         \<and> distinct ads \<and> sorted (map sk ads) \<and> set ads = set cur \<union> set l))
   \<and> ((type e0 = JNull \<or> type e0 = JStr ''physical'') \<and> addresses (nodes e0) = Some cur0 \<longrightarrow>
        ((\<exists>e1. set_physical_nodes sk e0 l0 = Inr e1) \<longleftrightarrow> set cur0 \<inter> set l0 = {}))"
proof (intro conjI impI)
  assume "set_physical_nodes sk e l = Inr e'"
  from set_physical_nodes_Inr [OF this] obtain cur where
    c: "addresses (nodes e) = Some cur"
       "e' = e\<lparr>type := JStr ''physical'', nodes := map Address (sort_key sk (remdups (cur @ l)))\<rparr>"
    by blast
  let ?ads = "sort_key sk (remdups (cur @ l))"
  have "nodes e' = map Address ?ads" using c(2) by simp
  moreover have "distinct ?ads" "sorted (map sk ?ads)" "set ?ads = set cur \<union> set l"
    by simp_all
  ultimately show "\<exists>cur ads. addresses (nodes e) = Some cur \<and> nodes e' = map Address ads
         \<and> distinct ads \<and> sorted (map sk ads) \<and> set ads = set cur \<union> set l"
    using c(1) by blast
next
  assume "(type e0 = JNull \<or> type e0 = JStr ''physical'') \<and> addresses (nodes e0) = Some cur0"
  then show "(\<exists>e1. set_physical_nodes sk e0 l0 = Inr e1) \<longleftrightarrow> set cur0 \<inter> set l0 = {}"
    by (simp add: set_physical_nodes_eq)
qed

theorem set_physical_nodes_sorted_distinct_witness:
  "set_physical_nodes length new_example [''bb'', ''a'', ''bb''] =
     Inr (new_example\<lparr>type := JStr ''physical'', nodes := [Address ''a'', Address ''bb'']\<rparr>)
   \<and> distinct [''a'', ''bb''] \<and> sorted (map length [''a'', ''bb''])
   \<and> set [''a'', ''bb''] = set [] \<union> set [''bb'', ''a'', ''bb'']
   \<and> (\<exists>e1. set_physical_nodes length new_example [''bb'', ''a'', ''bb''] = Inr e1)"
proof -
  have ev: "set_physical_nodes length new_example [''bb'', ''a'', ''bb''] =
     Inr (new_example\<lparr>type := JStr ''physical'', nodes := [Address ''a'', Address ''bb'']\<rparr>)"
    by (simp add: new_example_def Experiment_init_def set_physical_nodes_def set_type_def)
  have h: "(type new_example = JNull \<or> type new_example = JStr ''physical'')
      \<and> addresses (nodes new_example) = Some []"
    by (simp add: new_example_def Experiment_init_def)
  from set_physical_nodes_sorted_distinct [of length new_example "[''bb'', ''a'', ''bb'']"
      "new_example\<lparr>type := JStr ''physical'', nodes := [Address ''a'', Address ''bb'']\<rparr>"
      new_example "[]" "[''bb'', ''a'', ''bb'']"] ev h
  show ?thesis by auto
qed

theorem addressing_mode_fixed_witness:
  "add_all length (Experiment_init (JStr ''exp'') (JInt 20) JNull) [physical_group1, physical_group2] =
     Inr physical_built
   \<and> type physical_built = JStr (res_type physical_group1)
   \<and> res_type physical_group2 = res_type physical_group1
   \<and> add_exp_resources length physical_built1 alias_group1 = Inl ModeConflict
   \<and> add_exp_resources length alias_built physical_group2 = Inl ModeConflict
   \<and> set_alias_nodes physical_built1 (AliasGroup alias_example) = Inl ModeConflict
   \<and> set_physical_nodes length alias_built [''ccc''] = Inl ModeConflict
   \<and> add_exp_resources length physical_built1 physical_group2 = Inr physical_built
   \<and> type physical_built = JStr (res_type physical_group2)"
proof -
  have b: "add_all length (Experiment_init (JStr ''exp'') (JInt 20) JNull)
             [physical_group1, physical_group2] = Inr physical_built"
    using physical_add_all_eq by (simp add: new_example_def)
  have tp: "type physical_built1 = JStr ''physical''" "type alias_built = JStr ''alias''"
    "res_type alias_group1 = ''alias''" "res_type physical_group2 = ''physical''"
    "res_type physical_group1 = ''physical''"
    by (simp_all add: physical_built1_def alias_built_def alias_group1_def physical_group2_def
        physical_group1_def exp_resources_def)
  note w1 = addressing_mode_fixed [where sk = length and nm = "JStr ''exp''" and dur = "JInt 20"
      and st = JNull and r = physical_group1 and rs = "[physical_group2]" and e = physical_built
      and ?e0.0 = physical_built1 and ?r0.0 = alias_group1 and ?e1.0 = physical_built
      and t = "''physical''" and l = "[''ccc'']" and a = "AliasGroup alias_example"]
  note w2 = addressing_mode_fixed [where sk = length and nm = "JStr ''exp''" and dur = "JInt 20"
      and st = JNull and r = physical_group1 and rs = "[physical_group2]" and e = physical_built
      and ?e0.0 = alias_built and ?r0.0 = physical_group2 and ?e1.0 = physical_built
      and t = "''alias''" and l = "[''ccc'']" and a = "AliasGroup alias_example"]
  note w3 = addressing_mode_fixed [where sk = length and nm = "JStr ''exp''" and dur = "JInt 20"
      and st = JNull and r = physical_group1 and rs = "[physical_group2]" and e = physical_built
      and ?e0.0 = physical_built1 and ?r0.0 = physical_group2 and ?e1.0 = physical_built
      and t = "''physical''" and l = "[''ccc'']" and a = "AliasGroup alias_example"]
  from w1 w2 w3 b tp physical_built_eq show ?thesis by simp
qed

subsection \<open>Value names\<close>

lemma basename_no_slash: "CHR ''/'' \<notin> set (basename p)"
  by (auto simp: basename_def dest: set_takeWhileD)

lemma basename_id:
  assumes "CHR ''/'' \<notin> set p"
  shows "basename p = p"
proof -
  have "takeWhile (\<lambda>c. c \<noteq> CHR ''/'') (rev p) = rev p"
    unfolding takeWhile_eq_all_conv using assms by auto
  then show ?thesis unfolding basename_def by (simp only: rev_rev_ident)
qed

lemma basename_idem: "basename (basename p) = basename p"
  by (simp add: basename_id basename_no_slash)

lemma nodes_association_name_firmware: "nodes_association_name ''firmware'' v = basename v"
  by (simp add: nodes_association_name_def basename_if_in_def NODES_ASSOCIATIONS_FILE_ASSOCS_def)

lemma nodes_association_name_other: "t \<noteq> ''firmware'' \<Longrightarrow> nodes_association_name t v = v"
  by (simp add: nodes_association_name_def basename_if_in_def NODES_ASSOCIATIONS_FILE_ASSOCS_def)

lemma nodes_association_name_idem:
  "nodes_association_name t (nodes_association_name t v) = nodes_association_name t v"
  by (cases "t = ''firmware''")
     (simp_all add: nodes_association_name_firmware nodes_association_name_other basename_idem)

subsection \<open>What \<^verbatim>\<open>extendvalues\<close> does to a map\<close>

lemma map_fst_update_entries:
  "map fst (map (\<lambda>(n, vs). if n = nm then (n, f vs) else (n, vs)) ens) = map fst ens"
  by (induction ens) auto

lemma extendvalues_keys:
  assumes "extendvalues sk m v nds = Inr m'"
  shows "keys m' =
           (if nodes_association_name (assoctype m) v \<in> set (keys m) then keys m
            else keys m @ [nodes_association_name (assoctype m) v])
         \<and> assoctype m' = assoctype m \<and> resource m' = resource m"
  using assms
  by (auto simp: extendvalues_def Let_def keys_def map_fst_update_entries split: if_splits)

lemma extendvalues_entries:
  assumes "extendvalues sk m v nds = Inr m'"
  shows "entries m' =
           (if nodes_association_name (assoctype m) v \<in> set (keys m)
              then map (\<lambda>(n, vs). if n = nodes_association_name (assoctype m) v
                                   then (n, sort_key sk (remdups (vs @ nds))) else (n, vs))
                     (entries m)
            else entries m @ [(nodes_association_name (assoctype m) v, sort_key sk (remdups nds))])"
  using assms by (simp add: extendvalues_def Let_def split: if_splits) auto

lemma update_entries_same:
  "(nm, vs) \<in> set ens \<Longrightarrow>
     (nm, f vs) \<in> set (map (\<lambda>(n, vs). if n = nm then (n, f vs) else (n, vs)) ens)"
  by (induction ens) auto

lemma update_entries_other:
  "(k, vs) \<in> set ens \<Longrightarrow> k \<noteq> nm \<Longrightarrow>
     (k, vs) \<in> set (map (\<lambda>(n, vs). if n = nm then (n, f vs) else (n, vs)) ens)"
  by (induction ens) auto

lemma recorded_in_Some:
  "recorded_in (Some m) k nds \<longleftrightarrow> (\<exists>vs. (k, vs) \<in> set (entries m) \<and> set nds \<subseteq> set vs)"
  by (auto simp: recorded_in_def list_ex_iff)

lemma extendvalues_recorded:
  assumes "extendvalues sk m v nds = Inr m'"
  shows "recorded_in (Some m') (nodes_association_name (assoctype m) v) nds"
proof -
  let ?nm = "nodes_association_name (assoctype m) v"
  note en = extendvalues_entries [OF assms]
  show ?thesis
  proof (cases "?nm \<in> set (keys m)")
    case True
    then obtain vs where "(?nm, vs) \<in> set (entries m)" by (auto simp: keys_def)
    from update_entries_same [OF this, of "\<lambda>vs. sort_key sk (remdups (vs @ nds))"]
    have "(?nm, sort_key sk (remdups (vs @ nds))) \<in> set (entries m')"
      using en True by simp
    moreover have "set nds \<subseteq> set (sort_key sk (remdups (vs @ nds)))" by simp
    ultimately show ?thesis unfolding recorded_in_Some by blast
  next
    case False
    then have "(?nm, sort_key sk (remdups nds)) \<in> set (entries m')"
      using en by simp
    moreover have "set nds \<subseteq> set (sort_key sk (remdups nds))" by simp
    ultimately show ?thesis unfolding recorded_in_Some by blast
  qed
qed

lemma extendvalues_mono:
  assumes "extendvalues sk m v nds = Inr m'" and "recorded_in (Some m) k ns"
  shows "recorded_in (Some m') k ns"
proof -
  let ?nm = "nodes_association_name (assoctype m) v"
  note en = extendvalues_entries [OF assms(1)]
  from assms(2) obtain vs where vs: "(k, vs) \<in> set (entries m)" "set ns \<subseteq> set vs"
    unfolding recorded_in_Some by blast
  show ?thesis
  proof (cases "?nm \<in> set (keys m)")
    case True
    show ?thesis
    proof (cases "k = ?nm")
      case k: True
      from update_entries_same [OF vs(1) [unfolded k], of "\<lambda>vs. sort_key sk (remdups (vs @ nds))"]
      have "(k, sort_key sk (remdups (vs @ nds))) \<in> set (entries m')"
        using en True k by simp
      moreover have "set ns \<subseteq> set (sort_key sk (remdups (vs @ nds)))" using vs(2) by auto
      ultimately show ?thesis unfolding recorded_in_Some by blast
    next
      case k: False
      from update_entries_other [OF vs(1) k, of "\<lambda>vs. sort_key sk (remdups (vs @ nds))"]
      have "(k, vs) \<in> set (entries m')" using en True by simp
      with vs(2) show ?thesis unfolding recorded_in_Some by blast
    qed
  next
    case False
    with vs(1) have "(k, vs) \<in> set (entries m')" using en by simp
    with vs(2) show ?thesis unfolding recorded_in_Some by blast
  qed
qed

subsection \<open>Well-formed experiments\<close>

lemma wf_init: "wf_experiment (Experiment_init nm dur st)"
  by (simp add: wf_experiment_def Experiment_init_def)

lemma wf_map_init: "wf_map t (AssociationsMap_init t ''nodes'')"
  by (simp add: wf_map_def AssociationsMap_init_def)

lemma extendvalues_wf: "wf_map t m \<Longrightarrow> extendvalues sk m v nds = Inr m' \<Longrightarrow> wf_map t m'"
  by (auto simp: wf_map_def dest: extendvalues_keys)

lemma get_firmwareassociations_wf: "wf_experiment e \<Longrightarrow> wf_map ''firmware'' (get_firmwareassociations e)"
  by (auto simp: wf_experiment_def get_firmwareassociations_def wf_map_init split: option.splits)

lemma get_profileassociations_wf: "wf_experiment e \<Longrightarrow> wf_map ''profile'' (get_profileassociations e)"
  by (auto simp: wf_experiment_def get_profileassociations_def wf_map_init split: option.splits)

lemma list_all_map_of:
  "list_all (\<lambda>(t, m). P t m) d \<Longrightarrow> map_of d t = Some m \<Longrightarrow> P t m"
  by (induction d) (auto split: if_splits)

lemma get_associations_wf: "wf_experiment e \<Longrightarrow> wf_map t (get_associations e t)"
  by (auto simp: wf_experiment_def get_associations_def wf_map_init
           split: option.splits dest: list_all_map_of)

lemma list_all_dict_set:
  "list_all (\<lambda>(t, m). P t m) d \<Longrightarrow> P t m \<Longrightarrow> list_all (\<lambda>(t, m). P t m) (dict_set t m d)"
  by (induction d) auto

lemma map_of_dict_set: "map_of (dict_set t m d) t' = (if t' = t then Some m else map_of d t')"
  by (induction d) auto

lemma set_association_wf:
  "wf_experiment e \<Longrightarrow> wf_map t m \<Longrightarrow> wf_experiment (set_association e t m)"
  by (auto simp: wf_experiment_def set_association_def intro: list_all_dict_set split: option.splits)

text \<open>What a step leaves as it is.\<close>

lemma register_nodes_frame:
  "register_nodes sk e n = Inr e' \<Longrightarrow>
     firmwareassociations e' = firmwareassociations e \<and>
     profileassociations e' = profileassociations e \<and>
     associations e' = associations e"
  by (auto simp: register_nodes_def set_alias_nodes_def set_type_def
           dest!: set_physical_nodes_Inr split: nodes_arg.splits if_splits)

lemma add_profile_frame:
  "add_profile sk e pr n = Inr e' \<Longrightarrow>
     firmwareassociations e' = firmwareassociations e \<and> associations e' = associations e"
  by (auto simp: add_profile_eq split: option.splits sum.splits)

lemma add_firmware_frame:
  "add_firmware sk e fw n = Inr e' \<Longrightarrow>
     profileassociations e' = profileassociations e \<and> associations e' = associations e"
  by (auto simp: add_firmware_eq split: option.splits sum.splits)

lemma add_nodes_association_frame:
  "add_nodes_association sk e n t v = Inr e' \<Longrightarrow>
     firmwareassociations e' = firmwareassociations e \<and>
     profileassociations e' = profileassociations e"
  by (auto simp: add_nodes_association_eq set_association_def split: sum.splits)

lemma add_associations_frame:
  "add_associations sk e n as = Inr e' \<Longrightarrow>
     firmwareassociations e' = firmwareassociations e \<and>
     profileassociations e' = profileassociations e"
proof (induction as arbitrary: e)
  case Nil
  then show ?case by simp
next
  case (Cons p as)
  obtain t v where p: "p = (t, v)" by (cases p)
  from Cons.prems p obtain e1 where
    e1: "add_nodes_association sk e n t v = Inr e1" and rest: "add_associations sk e1 n as = Inr e'"
    by (auto split: sum.splits)
  from Cons.IH [OF rest] add_nodes_association_frame [OF e1] show ?case by simp
qed

lemma add_firmware_wf:
  assumes "wf_experiment e" and "add_firmware sk e fw nds = Inr e'"
  shows "wf_experiment e'"
proof (cases fw)
  case None
  with assms show ?thesis by (simp add: add_firmware_eq)
next
  case (Some f)
  with assms(2) obtain m' where
    m': "extendvalues sk (get_firmwareassociations e) (nodes_association_name ''firmware'' f) nds = Inr m'"
    and e': "e' = e\<lparr>firmwareassociations := Some m'\<rparr>"
    by (auto simp: add_firmware_eq split: sum.splits)
  from extendvalues_wf [OF get_firmwareassociations_wf [OF assms(1)] m']
  show ?thesis using assms(1) by (simp add: e' wf_experiment_def)
qed

lemma add_profile_wf:
  assumes "wf_experiment e" and "add_profile sk e pr nds = Inr e'"
  shows "wf_experiment e'"
proof (cases pr)
  case None
  with assms show ?thesis by (simp add: add_profile_eq)
next
  case (Some p)
  with assms(2) obtain m' where
    m': "extendvalues sk (get_profileassociations e) (nodes_association_name ''profile'' p) nds = Inr m'"
    and e': "e' = e\<lparr>profileassociations := Some m'\<rparr>"
    by (auto simp: add_profile_eq split: sum.splits)
  from extendvalues_wf [OF get_profileassociations_wf [OF assms(1)] m']
  show ?thesis using assms(1) by (simp add: e' wf_experiment_def)
qed

lemma add_nodes_association_wf:
  assumes "wf_experiment e" and "add_nodes_association sk e nds t v = Inr e'"
  shows "wf_experiment e'"
proof -
  from assms(2) obtain m' where
    m': "extendvalues sk (get_associations e t) (nodes_association_name t v) nds = Inr m'"
    and e': "e' = set_association e t m'"
    by (auto simp: add_nodes_association_eq split: sum.splits)
  from extendvalues_wf [OF get_associations_wf [OF assms(1)] m']
  show ?thesis unfolding e' by (rule set_association_wf [OF assms(1)])
qed

lemma add_associations_wf:
  "wf_experiment e \<Longrightarrow> add_associations sk e nds as = Inr e' \<Longrightarrow> wf_experiment e'"
proof (induction as arbitrary: e)
  case Nil
  then show ?case by simp
next
  case (Cons p as)
  obtain t v where p: "p = (t, v)" by (cases p)
  from Cons.prems(2) p obtain e1 where
    e1: "add_nodes_association sk e nds t v = Inr e1" and rest: "add_associations sk e1 nds as = Inr e'"
    by (auto split: sum.splits)
  from Cons.IH [OF add_nodes_association_wf [OF Cons.prems(1) e1] rest] show ?case .
qed

lemma register_nodes_wf:
  "wf_experiment e \<Longrightarrow> register_nodes sk e n = Inr e' \<Longrightarrow> wf_experiment e'"
  by (auto simp: wf_experiment_def dest!: register_nodes_frame)

lemma set_type_wf: "wf_experiment e \<Longrightarrow> set_type e t = Inr e' \<Longrightarrow> wf_experiment e'"
  by (auto simp: wf_experiment_def set_type_Inr)

lemma add_exp_resources_wf:
  assumes "wf_experiment e" and "add_exp_resources sk e r = Inr e'"
  shows "wf_experiment e'"
proof -
  from add_exp_resources_Inr [OF assms(2)] obtain e1 e2 nds e3 e4 where
    s: "set_type e (res_type r) = Inr e1"
       "register_nodes sk e1 (res_nodes r) = Inr e2"
       "add_firmware sk e2 (res_firmware r) nds = Inr e3"
       "add_profile sk e3 (res_profile r) nds = Inr e4"
       "add_associations sk e4 nds (res_associations r) = Inr e'"
    by blast
  from set_type_wf [OF assms(1) s(1)] have "wf_experiment e1" .
  from register_nodes_wf [OF this s(2)] have "wf_experiment e2" .
  from add_firmware_wf [OF this s(3)] have "wf_experiment e3" .
  from add_profile_wf [OF this s(4)] have "wf_experiment e4" .
  from add_associations_wf [OF this s(5)] show ?thesis .
qed

lemma add_all_wf: "wf_experiment e \<Longrightarrow> add_all sk e rs = Inr e' \<Longrightarrow> wf_experiment e'"
proof (induction rs arbitrary: e)
  case Nil
  then show ?case by simp
next
  case (Cons r rs)
  from Cons.prems(2) obtain e1 where
    e1: "add_exp_resources sk e r = Inr e1" and rest: "add_all sk e1 rs = Inr e'"
    by (auto split: sum.splits)
  from Cons.IH [OF add_exp_resources_wf [OF Cons.prems(1) e1] rest] show ?case .
qed

lemma add_all_snoc:
  "add_all sk e (rs @ [r]) =
     (case add_all sk e rs of Inl err \<Rightarrow> Inl err | Inr e' \<Rightarrow> add_exp_resources sk e' r)"
  by (induction rs arbitrary: e) (auto split: sum.splits)

subsection \<open>File names\<close>

lemma add_firmware_filenames:
  assumes "wf_experiment e" and "add_firmware sk e fw nds = Inr e'"
  shows "filenames e' =
           (case fw of
              None \<Rightarrow> filenames e
            | Some f \<Rightarrow> if basename f \<in> set (filenames e) then filenames e
                        else filenames e @ [basename f])"
proof (cases fw)
  case None
  with assms show ?thesis by (simp add: add_firmware_eq)
next
  case (Some f)
  let ?m = "get_firmwareassociations e"
  from Some assms(2) obtain m' where
    m': "extendvalues sk ?m (nodes_association_name ''firmware'' f) nds = Inr m'"
    and e': "e' = e\<lparr>firmwareassociations := Some m'\<rparr>"
    by (auto simp: add_firmware_eq split: sum.splits)
  have at: "assoctype ?m = ''firmware''"
    using get_firmwareassociations_wf [OF assms(1)] by (simp add: wf_map_def)
  have k: "keys ?m = filenames e"
    by (simp add: get_firmwareassociations_def filenames_def AssociationsMap_init_def keys_def
        split: option.splits)
  from extendvalues_keys [OF m'] show ?thesis
    by (simp add: Some e' filenames_def at k nodes_association_name_firmware basename_idem)
qed

lemma add_exp_resources_filenames:
  assumes "wf_experiment e" and "add_exp_resources sk e r = Inr e'"
  shows "filenames e' =
           (case res_firmware r of
              None \<Rightarrow> filenames e
            | Some f \<Rightarrow> if basename f \<in> set (filenames e) then filenames e
                        else filenames e @ [basename f])"
proof -
  from add_exp_resources_Inr [OF assms(2)] obtain e1 e2 nds e3 e4 where
    s: "set_type e (res_type r) = Inr e1"
       "register_nodes sk e1 (res_nodes r) = Inr e2"
       "add_firmware sk e2 (res_firmware r) nds = Inr e3"
       "add_profile sk e3 (res_profile r) nds = Inr e4"
       "add_associations sk e4 nds (res_associations r) = Inr e'"
    by blast
  have w2: "wf_experiment e2"
    using set_type_wf [OF assms(1) s(1)] register_nodes_wf s(2) by blast
  have f2: "filenames e2 = filenames e"
    using s(1) register_nodes_frame [OF s(2)] by (auto simp: filenames_def set_type_Inr)
  have f4: "filenames e' = filenames e3"
    using add_profile_frame [OF s(4)] add_associations_frame [OF s(5)] by (simp add: filenames_def)
  from add_firmware_filenames [OF w2 s(3)] show ?thesis unfolding f2 f4 .
qed

lemma first_seen_snoc:
  "rev (remdups (rev (xs @ [x]))) =
     (if x \<in> set xs then rev (remdups (rev xs)) else rev (remdups (rev xs)) @ [x])"
  by simp

lemma map_filter_snoc:
  "List.map_filter f (xs @ [x]) = List.map_filter f xs @ (case f x of None \<Rightarrow> [] | Some y \<Rightarrow> [y])"
  by (simp add: List.map_filter_def split: option.splits)

lemma add_all_filenames:
  "add_all sk (Experiment_init nm dur st) rs = Inr e \<Longrightarrow>
     filenames e = rev (remdups (rev (map basename (List.map_filter res_firmware rs))))"
proof (induction rs arbitrary: e rule: rev_induct)
  case Nil
  then show ?case by (auto simp: filenames_def Experiment_init_def List.map_filter_def)
next
  case (snoc r rs)
  from snoc.prems obtain e0 where
    e0: "add_all sk (Experiment_init nm dur st) rs = Inr e0" and e: "add_exp_resources sk e0 r = Inr e"
    by (auto simp: add_all_snoc split: sum.splits)
  have w0: "wf_experiment e0" using add_all_wf [OF wf_init e0] .
  let ?fs = "map basename (List.map_filter res_firmware rs)"
  have ih: "filenames e0 = rev (remdups (rev ?fs))" using snoc.IH [OF e0] .
  show ?case
  proof (cases "res_firmware r")
    case None
    with add_exp_resources_filenames [OF w0 e] ih show ?thesis
      by (simp add: map_filter_snoc)
  next
    case (Some f)
    have "set (filenames e0) = set ?fs" by (simp add: ih)
    with add_exp_resources_filenames [OF w0 e] ih Some show ?thesis
      by (simp add: map_filter_snoc)
  qed
qed

text \<open>
  C7, as amended. For an experiment built from the groups \<open>rs\<close>, \<^verbatim>\<open>filenames\<close> returns
  the basenames of the groups' firmwares, each once, in the order in which they were first
  seen (not sorted): its elements are distinct and are exactly the basenames of the
  \<^verbatim>\<open>firmware\<close> entries of the groups, however many groups name each. Profile names and
  the names of other associations are not among them, whatever their type.
\<close>

theorem filenames_first_seen:
  assumes "add_all sk (Experiment_init nm dur st) rs = Inr e"
  shows "filenames e = rev (remdups (rev (map basename (List.map_filter res_firmware rs))))
       \<and> distinct (filenames e)
       \<and> set (filenames e) = {basename f |f. \<exists>r\<in>set rs. res_firmware r = Some f}"
proof -
  have f: "filenames e = rev (remdups (rev (map basename (List.map_filter res_firmware rs))))"
    using add_all_filenames [OF assms] .
  have "set (List.map_filter res_firmware rs) = {f. \<exists>r\<in>set rs. res_firmware r = Some f}"
    by (induction rs) (auto simp: List.map_filter_simps split: option.splits)
  then have "set (filenames e) = {basename f |f. \<exists>r\<in>set rs. res_firmware r = Some f}"
    unfolding f by auto
  moreover have "distinct (filenames e)" unfolding f by simp
  ultimately show ?thesis using f by simp
qed

theorem filenames_first_seen_witness:
  "filenames physical_built = [''b.elf'', ''a.elf'']
   \<and> distinct (filenames physical_built)
   \<and> filenames physical_built =
       rev (remdups (rev (map basename
         (List.map_filter res_firmware [physical_group1, physical_group2]))))"
proof -
  have b: "add_all length (Experiment_init (JStr ''exp'') (JInt 20) JNull)
             [physical_group1, physical_group2] = Inr physical_built"
    using physical_add_all_eq by (simp add: new_example_def)
  have "filenames physical_built = [''b.elf'', ''a.elf'']"
    by (simp add: physical_built_def physical_built1_def filenames_def keys_def)
  moreover note filenames_first_seen [OF b, THEN conjunct1]
  moreover note filenames_first_seen [OF b, THEN conjunct2, THEN conjunct1]
  ultimately show ?thesis by (simp only: simp_thms)
qed

text \<open>
  C7, as stated, fails: the list is not sorted. A first group with the firmware
  \<^verbatim>\<open>dir/b.elf\<close> and a second with \<^verbatim>\<open>a.elf\<close> give \<^verbatim>\<open>['b.elf', 'a.elf']\<close>.
\<close>

theorem filenames_not_sorted:
  "add_all length new_example [physical_group1, physical_group2] = Inr physical_built
   \<and> filenames physical_built = [''b.elf'', ''a.elf'']
   \<and> \<not> sorted (filenames physical_built)"
proof -
  have "filenames physical_built = [''b.elf'', ''a.elf'']"
    by (simp add: physical_built_def physical_built1_def filenames_def keys_def)
  then show ?thesis using physical_add_all_eq by simp
qed


subsection \<open>Recording value names\<close>

lemma nodes_to_assoc_type: "type e' = type e \<Longrightarrow> nodes_to_assoc e' n = nodes_to_assoc e n"
  by (simp add: nodes_to_assoc_def)

lemma add_firmware_recorded:
  assumes "add_firmware sk e (Some f) nds = Inr e'"
  shows "recorded_in (firmwareassociations e') (basename f) nds"
proof -
  let ?m = "get_firmwareassociations e"
  from assms obtain m' where
    m': "extendvalues sk ?m (nodes_association_name ''firmware'' f) nds = Inr m'"
    and e': "e' = e\<lparr>firmwareassociations := Some m'\<rparr>"
    by (auto simp: add_firmware_eq split: sum.splits)
  have nm: "nodes_association_name (assoctype ?m) (nodes_association_name ''firmware'' f) = basename f"
    by (cases "assoctype ?m = ''firmware''")
       (simp_all add: nodes_association_name_firmware nodes_association_name_other basename_idem)
  from extendvalues_recorded [OF m'] show ?thesis
    by (simp add: e' nm)
qed

lemma add_profile_recorded:
  assumes "wf_experiment e" and "add_profile sk e (Some p) nds = Inr e'"
  shows "recorded_in (profileassociations e') p nds"
proof -
  let ?m = "get_profileassociations e"
  from assms(2) obtain m' where
    m': "extendvalues sk ?m (nodes_association_name ''profile'' p) nds = Inr m'"
    and e': "e' = e\<lparr>profileassociations := Some m'\<rparr>"
    by (auto simp: add_profile_eq split: sum.splits)
  have at: "assoctype ?m = ''profile''"
    using get_profileassociations_wf [OF assms(1)] by (simp add: wf_map_def)
  from extendvalues_recorded [OF m'] show ?thesis
    by (simp add: e' at nodes_association_name_other)
qed

lemma add_nodes_association_recorded:
  assumes "wf_experiment e" and "add_nodes_association sk e nds t v = Inr e'"
  shows "recorded_assoc (associations e') t (nodes_association_name t v) nds"
proof -
  let ?m = "get_associations e t"
  from assms(2) obtain m' where
    m': "extendvalues sk ?m (nodes_association_name t v) nds = Inr m'"
    and e': "e' = set_association e t m'"
    by (auto simp: add_nodes_association_eq split: sum.splits)
  have at: "assoctype ?m = t"
    using get_associations_wf [OF assms(1)] by (simp add: wf_map_def)
  from extendvalues_recorded [OF m'] show ?thesis
    by (simp add: e' at nodes_association_name_idem recorded_assoc_def set_association_def
        map_of_dict_set)
qed

lemma add_nodes_association_mono:
  assumes "add_nodes_association sk e nds t v = Inr e'"
    and "recorded_assoc (associations e) t0 k ns"
  shows "recorded_assoc (associations e') t0 k ns"
proof -
  let ?m = "get_associations e t"
  from assms(1) obtain m' where
    m': "extendvalues sk ?m (nodes_association_name t v) nds = Inr m'"
    and e': "e' = set_association e t m'"
    by (auto simp: add_nodes_association_eq split: sum.splits)
  from assms(2) obtain d where d: "associations e = Some d" "recorded_in (map_of d t0) k ns"
    by (auto simp: recorded_assoc_def split: option.splits)
  show ?thesis
  proof (cases "t0 = t")
    case True
    from d(2) obtain m where m: "map_of d t = Some m"
      by (auto simp: True recorded_in_def split: option.splits)
    then have "?m = m" by (simp add: get_associations_def d(1))
    with m d(2) True have "recorded_in (Some ?m) k ns" by simp
    from extendvalues_mono [OF m' this] show ?thesis
      by (simp add: e' True recorded_assoc_def set_association_def map_of_dict_set)
  next
    case False
    with d show ?thesis
      by (simp add: e' recorded_assoc_def set_association_def map_of_dict_set)
  qed
qed

lemma add_associations_mono:
  "add_associations sk e nds as = Inr e' \<Longrightarrow> recorded_assoc (associations e) t0 k ns \<Longrightarrow>
     recorded_assoc (associations e') t0 k ns"
proof (induction as arbitrary: e)
  case Nil
  then show ?case by simp
next
  case (Cons p as)
  obtain t v where p: "p = (t, v)" by (cases p)
  from Cons.prems(1) p obtain e1 where
    e1: "add_nodes_association sk e nds t v = Inr e1" and rest: "add_associations sk e1 nds as = Inr e'"
    by (auto split: sum.splits)
  from Cons.IH [OF rest add_nodes_association_mono [OF e1 Cons.prems(2)]] show ?case .
qed

lemma add_associations_recorded:
  "wf_experiment e \<Longrightarrow> add_associations sk e nds as = Inr e' \<Longrightarrow> (t, v) \<in> set as \<Longrightarrow>
     recorded_assoc (associations e') t (nodes_association_name t v) nds"
proof (induction as arbitrary: e)
  case Nil
  then show ?case by simp
next
  case (Cons p as)
  obtain t1 v1 where p: "p = (t1, v1)" by (cases p)
  from Cons.prems(2) p obtain e1 where
    e1: "add_nodes_association sk e nds t1 v1 = Inr e1" and rest: "add_associations sk e1 nds as = Inr e'"
    by (auto split: sum.splits)
  have w1: "wf_experiment e1" using add_nodes_association_wf [OF Cons.prems(1) e1] .
  show ?case
  proof (cases "(t, v) = (t1, v1)")
    case True
    from add_nodes_association_recorded [OF Cons.prems(1) e1]
    have "recorded_assoc (associations e1) t (nodes_association_name t v) nds" using True by simp
    from add_associations_mono [OF rest this] show ?thesis .
  next
    case False
    with Cons.prems(3) p have "(t, v) \<in> set as" by auto
    from Cons.IH [OF w1 rest this] show ?thesis .
  qed
qed

lemma add_exp_resources_firmware_recorded:
  assumes "add_exp_resources sk e r = Inr e'"
    and "nodes_to_assoc e' (res_nodes r) = Inr subj"
    and "res_firmware r = Some f"
  shows "recorded_in (firmwareassociations e') (basename f) subj"
proof -
  from add_exp_resources_Inr [OF assms(1)] obtain e1 e2 nds e3 e4 where
    s: "nodes_to_assoc e2 (res_nodes r) = Inr nds"
       "add_firmware sk e2 (res_firmware r) nds = Inr e3"
       "add_profile sk e3 (res_profile r) nds = Inr e4"
       "add_associations sk e4 nds (res_associations r) = Inr e'"
    by blast
  have "type e' = type e2"
    using add_firmware_type [OF s(2)] add_profile_type [OF s(3)] add_associations_type [OF s(4)]
    by simp
  from nodes_to_assoc_type [OF this] assms(2) s(1) have subj: "subj = nds" by simp
  from assms(3) s(2) have "add_firmware sk e2 (Some f) nds = Inr e3" by simp
  from add_firmware_recorded [OF this]
  show ?thesis using add_profile_frame [OF s(3)] add_associations_frame [OF s(4)] subj by simp
qed

lemma add_exp_resources_recorded:
  assumes "wf_experiment e" and "add_exp_resources sk e r = Inr e'"
    and "nodes_to_assoc e' (res_nodes r) = Inr subj"
  shows "(\<forall>f. res_firmware r = Some f \<longrightarrow> recorded_in (firmwareassociations e') (basename f) subj)
       \<and> (\<forall>p. res_profile r = Some p \<longrightarrow> recorded_in (profileassociations e') p subj)
       \<and> (\<forall>(t, v)\<in>set (res_associations r).
             recorded_assoc (associations e') t (nodes_association_name t v) subj)"
proof -
  from add_exp_resources_Inr [OF assms(2)] obtain e1 e2 nds e3 e4 where
    s: "set_type e (res_type r) = Inr e1"
       "register_nodes sk e1 (res_nodes r) = Inr e2"
       "nodes_to_assoc e2 (res_nodes r) = Inr nds"
       "add_firmware sk e2 (res_firmware r) nds = Inr e3"
       "add_profile sk e3 (res_profile r) nds = Inr e4"
       "add_associations sk e4 nds (res_associations r) = Inr e'"
    by blast
  have w2: "wf_experiment e2"
    using set_type_wf [OF assms(1) s(1)] register_nodes_wf s(2) by blast
  have w3: "wf_experiment e3" using add_firmware_wf [OF w2 s(4)] .
  have w4: "wf_experiment e4" using add_profile_wf [OF w3 s(5)] .
  have "type e' = type e2"
    using add_firmware_type [OF s(4)] add_profile_type [OF s(5)] add_associations_type [OF s(6)]
    by simp
  from nodes_to_assoc_type [OF this] assms(3) s(3) have subj: "subj = nds" by simp
  have fw: "recorded_in (firmwareassociations e') (basename f) subj" if "res_firmware r = Some f" for f
    using add_exp_resources_firmware_recorded [OF assms(2) assms(3) that] .
  have pr: "recorded_in (profileassociations e') p subj" if "res_profile r = Some p" for p
  proof -
    from that s(5) have "add_profile sk e3 (Some p) nds = Inr e4" by simp
    from add_profile_recorded [OF w3 this]
    show ?thesis using add_associations_frame [OF s(6)] subj by simp
  qed
  have as: "recorded_assoc (associations e') t (nodes_association_name t v) subj"
    if "(t, v) \<in> set (res_associations r)" for t v
    using add_associations_recorded [OF w4 s(6) that] subj by simp
  from fw pr as show ?thesis by blast
qed

text \<open>What the three blocks pass to the method of the map, whatever the method is.\<close>

lemma add_firmware_with_passes_basename:
  "add_firmware_with ext e (Some f) nds =
     (case ext (get_firmwareassociations e) (basename f) nds of
        Inl err \<Rightarrow> Inl err
      | Inr m \<Rightarrow> Inr (e\<lparr>firmwareassociations := Some m\<rparr>))"
  by (simp add: add_firmware_with_def nodes_association_name_firmware)

lemma add_profile_with_passes_name:
  "add_profile_with ext e (Some p) nds =
     (case ext (get_profileassociations e) p nds of
        Inl err \<Rightarrow> Inl err
      | Inr m \<Rightarrow> Inr (e\<lparr>profileassociations := Some m\<rparr>))"
  by (simp add: add_profile_with_def nodes_association_name_other)

lemma add_nodes_association_with_passes:
  "add_nodes_association_with ext e nds t v =
     (case ext (get_associations e t) (if t = ''firmware'' then basename v else v) nds of
        Inl err \<Rightarrow> Inl err
      | Inr m \<Rightarrow> Inr (set_association e t m))"
  by (simp add: add_nodes_association_with_def nodes_association_name_firmware
      nodes_association_name_other)

text \<open>
  C8. \<^verbatim>\<open>nodes_association_name\<close> gives the basename for the type \<^verbatim>\<open>firmware\<close> and
  the name unchanged for every other type, and \<^verbatim>\<open>add_exp_resources\<close> applies it before
  it records a name. Whatever the method \<open>ext\<close> of the map does with the name it
  receives, the firmware block passes it the basename of the firmware, the profile block
  the profile name as given, and \<^verbatim>\<open>_add_nodes_association\<close> the name as given for every
  type but \<^verbatim>\<open>firmware\<close>. With the map modelled from the spec: after
  \<^verbatim>\<open>add_exp_resources\<close> on any experiment, also one whose firmware attribute holds a
  map of another type, the firmware is recorded under its basename for the node
  references \<open>subj\<close> of the group (\<^verbatim>\<open>_nodes_to_assoc\<close>); and when a group \<open>r\<close> is
  added to an experiment built from the groups \<open>rs\<close>, its firmware is recorded in the
  firmware map under its basename, its profile in the profile map under the name as
  given, and each other association in the map of its type under
  \<^verbatim>\<open>nodes_association_name\<close> of its name, each for all of \<open>subj\<close>; and no key of the
  firmware map has a slash in it.
\<close>

theorem value_names_recorded:
  "nodes_association_name ''firmware'' v = basename v
   \<and> (t \<noteq> ''firmware'' \<longrightarrow> nodes_association_name t v = v)
   \<and> add_firmware_with ext e0 (Some f0) nds0 =
       (case ext (get_firmwareassociations e0) (basename f0) nds0 of
          Inl err \<Rightarrow> Inl err
        | Inr m \<Rightarrow> Inr (e0\<lparr>firmwareassociations := Some m\<rparr>))
   \<and> add_profile_with ext e0 (Some p0) nds0 =
       (case ext (get_profileassociations e0) p0 nds0 of
          Inl err \<Rightarrow> Inl err
        | Inr m \<Rightarrow> Inr (e0\<lparr>profileassociations := Some m\<rparr>))
   \<and> add_nodes_association_with ext e0 nds0 t v =
       (case ext (get_associations e0 t) (if t = ''firmware'' then basename v else v) nds0 of
          Inl err \<Rightarrow> Inl err
        | Inr m \<Rightarrow> Inr (set_association e0 t m))
   \<and> (add_exp_resources sk e1 r1 = Inr e2 \<and> nodes_to_assoc e2 (res_nodes r1) = Inr subj1
        \<and> res_firmware r1 = Some f1 \<longrightarrow>
       recorded_in (firmwareassociations e2) (basename f1) subj1)
   \<and> (add_all sk (Experiment_init nm dur st) (rs @ [r]) = Inr e
        \<and> nodes_to_assoc e (res_nodes r) = Inr subj \<longrightarrow>
       (\<forall>f. res_firmware r = Some f \<longrightarrow> recorded_in (firmwareassociations e) (basename f) subj)
       \<and> (\<forall>p. res_profile r = Some p \<longrightarrow> recorded_in (profileassociations e) p subj)
       \<and> (\<forall>(t', v')\<in>set (res_associations r).
             recorded_assoc (associations e) t' (nodes_association_name t' v') subj)
       \<and> (\<forall>k\<in>set (filenames e). CHR ''/'' \<notin> set k))"
proof (intro conjI impI)
  show "nodes_association_name ''firmware'' v = basename v"
    by (rule nodes_association_name_firmware)
next
  assume "t \<noteq> ''firmware''"
  then show "nodes_association_name t v = v" by (rule nodes_association_name_other)
next
  show "add_firmware_with ext e0 (Some f0) nds0 =
       (case ext (get_firmwareassociations e0) (basename f0) nds0 of
          Inl err \<Rightarrow> Inl err
        | Inr m \<Rightarrow> Inr (e0\<lparr>firmwareassociations := Some m\<rparr>))"
    by (rule add_firmware_with_passes_basename)
next
  show "add_profile_with ext e0 (Some p0) nds0 =
       (case ext (get_profileassociations e0) p0 nds0 of
          Inl err \<Rightarrow> Inl err
        | Inr m \<Rightarrow> Inr (e0\<lparr>profileassociations := Some m\<rparr>))"
    by (rule add_profile_with_passes_name)
next
  show "add_nodes_association_with ext e0 nds0 t v =
       (case ext (get_associations e0 t) (if t = ''firmware'' then basename v else v) nds0 of
          Inl err \<Rightarrow> Inl err
        | Inr m \<Rightarrow> Inr (set_association e0 t m))"
    by (rule add_nodes_association_with_passes)
next
  assume "add_exp_resources sk e1 r1 = Inr e2 \<and> nodes_to_assoc e2 (res_nodes r1) = Inr subj1
        \<and> res_firmware r1 = Some f1"
  then show "recorded_in (firmwareassociations e2) (basename f1) subj1"
    by (auto intro: add_exp_resources_firmware_recorded)
next
  assume h: "add_all sk (Experiment_init nm dur st) (rs @ [r]) = Inr e
        \<and> nodes_to_assoc e (res_nodes r) = Inr subj"
  then obtain e0 where
    e0: "add_all sk (Experiment_init nm dur st) rs = Inr e0" and e: "add_exp_resources sk e0 r = Inr e"
    by (auto simp: add_all_snoc split: sum.splits)
  have w0: "wf_experiment e0" using add_all_wf [OF wf_init e0] .
  note rec = add_exp_resources_recorded [OF w0 e conjunct2 [OF h]]
  from rec show "\<forall>f. res_firmware r = Some f \<longrightarrow> recorded_in (firmwareassociations e) (basename f) subj"
    by blast
  from rec show "\<forall>p. res_profile r = Some p \<longrightarrow> recorded_in (profileassociations e) p subj"
    by blast
  from rec show "\<forall>(t', v')\<in>set (res_associations r).
             recorded_assoc (associations e) t' (nodes_association_name t' v') subj"
    by blast
  from conjunct1 [OF h] have "filenames e =
      rev (remdups (rev (map basename (List.map_filter res_firmware (rs @ [r])))))"
    by (rule add_all_filenames)
  then show "\<forall>k\<in>set (filenames e). CHR ''/'' \<notin> set k"
    by (auto simp: basename_no_slash)
qed

theorem value_names_recorded_witness:
  "nodes_association_name ''firmware'' ''x/y'' = ''y''
   \<and> nodes_association_name ''mobility'' ''x/y'' = ''x/y''
   \<and> add_firmware_with store_as_given new_example (Some ''dir/b.elf'') [''a''] =
       Inr (new_example\<lparr>firmwareassociations :=
              Some \<lparr>assoctype = ''firmware'', resource = ''nodes'',
                    entries = [(''b.elf'', [''a''])]\<rparr>\<rparr>)
   \<and> add_profile_with store_as_given new_example (Some ''p/q'') [''a''] =
       Inr (new_example\<lparr>profileassociations :=
              Some \<lparr>assoctype = ''profile'', resource = ''nodes'',
                    entries = [(''p/q'', [''a''])]\<rparr>\<rparr>)
   \<and> add_nodes_association_with store_as_given new_example [''a''] ''mobility'' ''x/y'' =
       Inr (set_association new_example ''mobility''
              \<lparr>assoctype = ''mobility'', resource = ''nodes'', entries = [(''x/y'', [''a''])]\<rparr>)
   \<and> add_exp_resources length new_example physical_group1 = Inr physical_built1
   \<and> add_all length (Experiment_init (JStr ''exp'') (JInt 20) JNull) ([] @ [physical_group1]) =
       Inr physical_built1
   \<and> recorded_in (firmwareassociations physical_built1) ''b.elf'' [''bb'', ''a'', ''bb'']
   \<and> recorded_in (profileassociations physical_built1) ''p/q'' [''bb'', ''a'', ''bb'']
   \<and> recorded_assoc (associations physical_built1) ''mobility'' ''x/y'' [''bb'', ''a'', ''bb'']
   \<and> \<not> recorded_in (firmwareassociations physical_built1) ''dir/b.elf'' [''bb'', ''a'', ''bb'']"
proof -
  have b: "add_all length (Experiment_init (JStr ''exp'') (JInt 20) JNull) ([] @ [physical_group1]) =
       Inr physical_built1"
    using physical_built1_eq by (simp add: new_example_def)
  have n: "nodes_to_assoc physical_built1 (res_nodes physical_group1) = Inr [''bb'', ''a'', ''bb'']"
    by (simp add: nodes_to_assoc_def physical_built1_def physical_group1_def exp_resources_def)
  have r: "res_firmware physical_group1 = Some ''dir/b.elf''"
    "res_profile physical_group1 = Some ''p/q''"
    "res_associations physical_group1 = [(''mobility'', ''x/y'')]"
    by (simp_all add: physical_group1_def exp_resources_def)
  have neg: "\<not> recorded_in (firmwareassociations physical_built1) ''dir/b.elf'' [''bb'', ''a'', ''bb'']"
    by (simp add: recorded_in_def physical_built1_def)
  have g: "get_firmwareassociations new_example = AssociationsMap_init ''firmware'' ''nodes''"
    "get_profileassociations new_example = AssociationsMap_init ''profile'' ''nodes''"
    "get_associations new_example ''mobility'' = AssociationsMap_init ''mobility'' ''nodes''"
    by (simp_all add: new_example_def Experiment_init_def get_firmwareassociations_def
        get_profileassociations_def get_associations_def)
  have bn: "basename ''x/y'' = ''y''" by (simp add: basename_def)
  note w = value_names_recorded [where v = "''x/y''" and t = "''mobility''" and sk = length
      and ext = store_as_given and ?e0.0 = new_example and ?f0.0 = "''dir/b.elf''"
      and ?nds0.0 = "[''a'']" and ?p0.0 = "''p/q''"
      and ?e1.0 = new_example and ?r1.0 = physical_group1 and ?e2.0 = physical_built1
      and ?subj1.0 = "[''bb'', ''a'', ''bb'']" and ?f1.0 = "''dir/b.elf''"
      and nm = "JStr ''exp''" and dur = "JInt 20" and st = JNull and rs = "[]"
      and r = physical_group1 and e = physical_built1 and subj = "[''bb'', ''a'', ''bb'']"]
  from w b n r neg physical_built1_eq show ?thesis
    by (simp add: g bn basename_examples nodes_association_name_examples store_as_given_def
        AssociationsMap_init_def)
qed

subsection \<open>Serializing and loading\<close>

lemma name_key_not_nodes: "t @ ''name'' \<noteq> ''nodes''"
proof
  assume "t @ ''name'' = ''nodes''"
  then have "last (t @ ''name'') = last ''nodes''" by (rule arg_cong)
  then show False by simp
qed

lemma strings_of_map: "strings_of (map JStr vs) = Some vs"
  by (induction vs) auto

lemma entry_of_record:
  "entry_of t ''nodes'' (JObj [(t @ ''name'', JStr n), (''nodes'', JArr (map JStr vs))]) = Inr (n, vs)"
  using name_key_not_nodes [of t]
  by (auto simp: entry_of_def strings_of_map)

lemma entries_of_records:
  "entries_of t ''nodes''
     (map (\<lambda>(n, vs). JObj [(t @ ''name'', JStr n), (''nodes'', JArr (map JStr vs))]) ens) = Inr ens"
  by (induction ens) (auto simp: entry_of_record)

lemma from_list_list:
  assumes "wf_map t m"
  shows "from_list (AssociationsMap_list m) t ''nodes'' = Inr (Some m)"
proof -
  from assms have at: "assoctype m = t" and rs: "resource m = ''nodes''"
    by (simp_all add: wf_map_def)
  have "\<lparr>assoctype = t, resource = ''nodes'', entries = entries m\<rparr> = m"
    using at rs by (cases m) simp
  then show ?thesis
    by (simp add: from_list_def AssociationsMap_list_def at rs entries_of_records)
qed

lemma from_list_assocs_json:
  assumes "case mo of None \<Rightarrow> True | Some m \<Rightarrow> wf_map t m"
  shows "from_list (assocs_json mo) t ''nodes'' = Inr mo"
proof (cases mo)
  case None
  then show ?thesis by (simp add: assocs_json_def from_list_def)
next
  case (Some m)
  with assms show ?thesis by (simp add: assocs_json_def from_list_list)
qed

lemma maps_of_json:
  "list_all (\<lambda>(t, m). wf_map t m) d \<Longrightarrow>
     maps_of ''nodes'' (map (\<lambda>(t, m). (t, AssociationsMap_list m)) d) = Inr d"
  by (induction d) (auto simp: from_list_list)

lemma associationsmapdict_json:
  assumes "case d_opt of None \<Rightarrow> True | Some d \<Rightarrow> list_all (\<lambda>(t, m). wf_map t m) d"
  shows "associationsmapdict_from_dict (assocsdict_json d_opt) ''nodes'' = Inr d_opt"
proof (cases d_opt)
  case None
  then show ?thesis by (simp add: assocsdict_json_def associationsmapdict_from_dict_def)
next
  case (Some d)
  with assms have "maps_of ''nodes'' (map (\<lambda>(t, m). (t, AssociationsMap_list m)) d) = Inr d"
    by (simp add: maps_of_json)
  then show ?thesis by (simp add: Some assocsdict_json_def associationsmapdict_from_dict_def)
qed

lemma from_dict_serialize:
  assumes "wf_experiment e"
  shows "from_dict
           [(''name'', name e), (''duration'', duration e), (''reservation'', reservation e),
            (''type'', type e), (''nodes'', enc (nodes e)),
            (''firmwareassociations'', assocs_json (firmwareassociations e)),
            (''profileassociations'', assocs_json (profileassociations e)),
            (''associations'', assocsdict_json (associations e))] =
         Inr \<lparr>duration = duration e, reservation = reservation e, name = name e,
              type = type e, nodes = enc (nodes e),
              firmwareassociations = firmwareassociations e,
              profileassociations = profileassociations e,
              associations = associations e\<rparr>"
proof -
  from assms have
    fw: "from_list (assocs_json (firmwareassociations e)) ''firmware'' ''nodes'' =
           Inr (firmwareassociations e)" and
    pr: "from_list (assocs_json (profileassociations e)) ''profile'' ''nodes'' =
           Inr (profileassociations e)" and
    ad: "associationsmapdict_from_dict (assocsdict_json (associations e)) ''nodes'' =
           Inr (associations e)"
    by (simp_all add: wf_experiment_def from_list_assocs_json associationsmapdict_json)
  show ?thesis
    by (simp add: from_dict_def dict_pop_def load_assocs_def kwarg_def fw pr ad)
qed

text \<open>
  C1. For an experiment built from any sequence of resource groups (the sequence went
  through, so all its groups have one addressing mode): the canonical description is a JSON
  object; \<^verbatim>\<open>from_dict\<close> on its items returns an experiment; and serializing that
  experiment gives the first description again.
\<close>

theorem serialize_roundtrip:
  assumes "add_all sk (Experiment_init nm dur st) rs = Inr e"
  shows "\<exists>d e'. serialize nodes_json e = JObj d \<and> from_dict d = Inr e'
           \<and> serialize (\<lambda>j. j) e' = serialize nodes_json e"
proof -
  have w: "wf_experiment e" using add_all_wf [OF wf_init assms] .
  let ?d = "[(''name'', name e), (''duration'', duration e), (''reservation'', reservation e),
            (''type'', type e), (''nodes'', nodes_json (nodes e)),
            (''firmwareassociations'', assocs_json (firmwareassociations e)),
            (''profileassociations'', assocs_json (profileassociations e)),
            (''associations'', assocsdict_json (associations e))]"
  let ?e' = "\<lparr>duration = duration e, reservation = reservation e, name = name e,
              type = type e, nodes = nodes_json (nodes e),
              firmwareassociations = firmwareassociations e,
              profileassociations = profileassociations e,
              associations = associations e\<rparr>"
  have "serialize nodes_json e = JObj ?d" by (simp add: serialize_def)
  moreover have "from_dict ?d = Inr ?e'" using from_dict_serialize [OF w] .
  moreover have "serialize (\<lambda>j. j) ?e' = serialize nodes_json e" by (simp add: serialize_def)
  ultimately show ?thesis by blast
qed

theorem serialize_roundtrip_witness:
  "add_all length (Experiment_init (JStr ''exp'') (JInt 20) JNull) [alias_group1] = Inr alias_built
   \<and> (\<exists>d e'. serialize nodes_json alias_built = JObj d \<and> from_dict d = Inr e'
           \<and> serialize (\<lambda>j. j) e' = serialize nodes_json alias_built)
   \<and> serialize nodes_json alias_built =
       JObj [(''name'', JStr ''exp''), (''duration'', JInt 20), (''reservation'', JNull),
             (''type'', JStr ''alias''),
             (''nodes'', JArr [JObj [(''alias'', JStr ''1''), (''nbnodes'', JInt 5),
                (''properties'', JObj [(''archi'', JStr ''m3:at86rf231''),
                   (''site'', JStr ''grenoble''), (''mobile'', JBool False)])]]),
             (''firmwareassociations'',
                JArr [JObj [(''firmwarename'', JStr ''c.elf''), (''nodes'', JArr [JStr ''1''])]]),
             (''profileassociations'', JNull),
             (''associations'', JNull)]"
proof -
  have b: "add_all length (Experiment_init (JStr ''exp'') (JInt 20) JNull) [alias_group1] =
             Inr alias_built"
    using alias_built_eq by (simp add: new_example_def)
  have s: "serialize nodes_json alias_built =
       JObj [(''name'', JStr ''exp''), (''duration'', JInt 20), (''reservation'', JNull),
             (''type'', JStr ''alias''),
             (''nodes'', JArr [JObj [(''alias'', JStr ''1''), (''nbnodes'', JInt 5),
                (''properties'', JObj [(''archi'', JStr ''m3:at86rf231''),
                   (''site'', JStr ''grenoble''), (''mobile'', JBool False)])]]),
             (''firmwareassociations'',
                JArr [JObj [(''firmwarename'', JStr ''c.elf''), (''nodes'', JArr [JStr ''1''])]]),
             (''profileassociations'', JNull),
             (''associations'', JNull)]"
    by (simp add: serialize_def alias_built_def alias_example_def nodes_json_def AliasNodes_json_def
        assocs_json_def assocsdict_json_def AssociationsMap_list_def)
  from serialize_roundtrip [OF b] b s show ?thesis by (simp only: simp_thms)
qed


end
